theory Spec2Isabelle
  imports Main "HOL-Library.Sublist"
begin

section \<open>Values and exceptions of the scripts\<close>

text \<open>
  Both scripts (\<^verbatim>\<open>enable_public_api.py\<close>, \<^verbatim>\<open>fix_zero_trust.py\<close>) handle only values that
  \<^verbatim>\<open>json.loads\<close> returns or that are written as dict, list and str literals. A Python
  \<^verbatim>\<open>dict\<close> is an association list in insertion order, looked up with \<open>map_of\<close>;
  \<^verbatim>\<open>None\<close> is \<open>JNull\<close>. A \<^verbatim>\<open>str\<close> is the list of its UTF-8 bytes. JSON numbers are
  integers here: the scripts never compute with a number.
\<close>

datatype json =
    JNull
  | JBool bool
  | JNum int
  | JStr string
  | JArr "json list"
  | JObj "(string \<times> json) list"

text \<open>The exceptions that can leave a function of the scripts.\<close>

datatype error =
    URLError
  | ValueError
  | TypeError
  | KeyError string
  | AttributeError

text \<open>Truth value of an object, as \<^verbatim>\<open>if data:\<close> and \<^verbatim>\<open>if not api_app:\<close> test it.\<close>

fun truthy :: "json \<Rightarrow> bool" where
  "truthy JNull = False"
| "truthy (JBool b) = b"
| "truthy (JNum n) = (n \<noteq> 0)"
| "truthy (JStr s) = (s \<noteq> [])"
| "truthy (JArr xs) = (xs \<noteq> [])"
| "truthy (JObj kvs) = (kvs \<noteq> [])"

text \<open>
  \<^verbatim>\<open>x[k]\<close> with a \<^verbatim>\<open>str\<close> key: a dict gives the value or raises \<^verbatim>\<open>KeyError\<close>; \<^verbatim>\<open>None\<close>,
  a list, a str and a number raise \<^verbatim>\<open>TypeError\<close>.
\<close>

fun subscript :: "json \<Rightarrow> string \<Rightarrow> error + json" where
  "subscript (JObj kvs) k = (case map_of kvs k of None \<Rightarrow> Inl (KeyError k) | Some v \<Rightarrow> Inr v)"
| "subscript _ k = Inl TypeError"

text \<open>
  \<^verbatim>\<open>for a in x\<close>: a list yields its elements, a dict its keys, a str its characters (only
  whether there is one matters: the scripts subscript each element with a str key, which a
  str does not have); \<^verbatim>\<open>None\<close> and numbers are not iterable.
\<close>

fun py_iter :: "json \<Rightarrow> error + json list" where
  "py_iter (JArr xs) = Inr xs"
| "py_iter (JObj kvs) = Inr (map (\<lambda>kv. JStr (fst kv)) kvs)"
| "py_iter (JStr s) = Inr (map (\<lambda>c. JStr [c]) s)"
| "py_iter _ = Inl TypeError"

text \<open>
  \<^verbatim>\<open>next((a for a in xs if a[k] == v), None)\<close>: the generator stops at the first element it
  yields, and an element that cannot be subscripted raises before any later one is seen.
\<close>

fun first_match :: "string \<Rightarrow> json \<Rightarrow> json list \<Rightarrow> error + json" where
  "first_match k v [] = Inr JNull"
| "first_match k v (a # as) =
     (case subscript a k of
        Inl e \<Rightarrow> Inl e
      | Inr d \<Rightarrow> if d = v then Inr a else first_match k v as)"

definition next_match :: "string \<Rightarrow> json \<Rightarrow> json \<Rightarrow> error + json" where
  "next_match k v x = (case py_iter x of Inl e \<Rightarrow> Inl e | Inr xs \<Rightarrow> first_match k v xs)"

text \<open>\<^verbatim>\<open>any(p[k] == v for p in xs)\<close>, which also stops at the first hit.\<close>

fun any_match_list :: "string \<Rightarrow> json \<Rightarrow> json list \<Rightarrow> error + bool" where
  "any_match_list k v [] = Inr False"
| "any_match_list k v (p # ps) =
     (case subscript p k of
        Inl e \<Rightarrow> Inl e
      | Inr d \<Rightarrow> if d = v then Inr True else any_match_list k v ps)"

definition any_match :: "string \<Rightarrow> json \<Rightarrow> json \<Rightarrow> error + bool" where
  "any_match k v x = (case py_iter x of Inl e \<Rightarrow> Inl e | Inr xs \<Rightarrow> any_match_list k v xs)"

text \<open>\<^verbatim>\<open>[p[k] for p in xs]\<close>.\<close>

fun subscript_all :: "string \<Rightarrow> json list \<Rightarrow> error + json list" where
  "subscript_all k [] = Inr []"
| "subscript_all k (p # ps) =
     (case subscript p k of
        Inl e \<Rightarrow> Inl e
      | Inr d \<Rightarrow> (case subscript_all k ps of Inl e \<Rightarrow> Inl e | Inr ds \<Rightarrow> Inr (d # ds)))"

definition names_of :: "string \<Rightarrow> json \<Rightarrow> error + json" where
  "names_of k x =
     (case py_iter x of
        Inl e \<Rightarrow> Inl e
      | Inr xs \<Rightarrow> (case subscript_all k xs of Inl e \<Rightarrow> Inl e | Inr ds \<Rightarrow> Inr (JArr ds)))"

text \<open>
  \<^verbatim>\<open>s.lower()\<close> on the ASCII letters, and \<^verbatim>\<open>sub in s\<close> on strings. A value that is not a
  str has no \<^verbatim>\<open>lower\<close>.
\<close>

definition lower_char :: "char \<Rightarrow> char" where
  "lower_char c =
     (let n = (of_char c :: nat) in if 65 \<le> n \<and> n \<le> 90 then char_of (n + 32) else c)"

fun lower :: "json \<Rightarrow> error + string" where
  "lower (JStr s) = Inr (map lower_char s)"
| "lower _ = Inl AttributeError"

fun str_contains :: "string \<Rightarrow> string \<Rightarrow> bool" where
  "str_contains sub [] = (sub = [])"
| "str_contains sub (c # cs) = (prefix sub (c # cs) \<or> str_contains sub cs)"

text \<open>
  A value inside an f-string. A str stands for itself; the text Python writes for any other
  value (\<^verbatim>\<open>None\<close>, a number, a list, a dict) is the parameter \<open>repr\<close>.
\<close>

definition py_str :: "(json \<Rightarrow> string) \<Rightarrow> json \<Rightarrow> string" where
  "py_str repr x = (case x of JStr s \<Rightarrow> s | _ \<Rightarrow> repr x)"

section \<open>The API client\<close>

definition ACCOUNT_ID :: string where
  "ACCOUNT_ID = ''0f6a82c906336fc275932bf543fba961''"

definition TOKEN :: string where
  "TOKEN = ''Fleow80btRSmawwtROaS2u0mUlY_C47YJKmJGBc5''"

definition BASE_URL :: string where
  "BASE_URL = ''https://api.cloudflare.com/client/v4/accounts/'' @ ACCOUNT_ID @ ''/access/apps''"

definition HEADERS :: "(string \<times> string) list" where
  "HEADERS = [(''Authorization'', ''Bearer '' @ TOKEN), (''Content-Type'', ''application/json'')]"

definition ADMIN_GROUP_ID :: string where
  "ADMIN_GROUP_ID = ''9e16bff0-8e9d-4a7a-aaab-07541f88f8e4''"

definition SERVICE_TOKEN_ID :: string where
  "SERVICE_TOKEN_ID = ''15a661a2-bc33-409d-86d9-ffcc217ffdce''"

text \<open>
  What \<^verbatim>\<open>request\<close> hands to \<^verbatim>\<open>urlopen\<close>. The body is the payload that
  \<^verbatim>\<open>json.dumps(data).encode('utf-8')\<close> serialises, or absent.
\<close>

record http_request =
  rq_method :: string
  rq_url :: string
  rq_headers :: "(string \<times> string) list"
  rq_data :: "json option"

text \<open>
  What \<^verbatim>\<open>urlopen\<close> and the decoding of the body can do:
  \<^item> return a response whose body is the UTF-8 JSON text of a value;
  \<^item> return a response whose body \<^verbatim>\<open>decode\<close> or \<^verbatim>\<open>json.loads\<close> rejects (a \<^verbatim>\<open>ValueError\<close>);
  \<^item> raise \<^verbatim>\<open>HTTPError\<close> for an error status, with a body that is UTF-8 text, or is not;
  \<^item> raise \<^verbatim>\<open>URLError\<close> (no connection, no name resolution, TLS failure), which is the
    parent class of \<^verbatim>\<open>HTTPError\<close> and is not caught by \<^verbatim>\<open>except HTTPError\<close>.
\<close>

datatype outcome =
    Returned json
  | Returned_undecodable
  | Raised_HTTPError nat string
  | Raised_HTTPError_undecodable nat
  | Raised_URLError

text \<open>
  The state of a run: the world behind \<^verbatim>\<open>urlopen\<close> (of any type \<open>'w\<close>), the requests handed
  to it so far, and the lines printed so far. A program returns a value or the exception
  that left it, and the state reached.
\<close>

record 'w run_state =
  world :: 'w
  sent :: "http_request list"
  stdout :: "string list"

type_synonym ('w, 'a) prog = "'w run_state \<Rightarrow> (error + 'a) \<times> 'w run_state"

type_synonym 'w urlopen = "'w \<Rightarrow> http_request \<Rightarrow> outcome \<times> 'w"

definition ret :: "'a \<Rightarrow> ('w, 'a) prog" where
  "ret x s = (Inr x, s)"

definition and_then :: "('w, 'a) prog \<Rightarrow> ('a \<Rightarrow> ('w, 'b) prog) \<Rightarrow> ('w, 'b) prog" where
  "and_then m f s = (case m s of (Inl e, s') \<Rightarrow> (Inl e, s') | (Inr x, s') \<Rightarrow> f x s')"

definition lift :: "error + 'a \<Rightarrow> ('w, 'a) prog" where
  "lift r s = (r, s)"

definition print :: "string \<Rightarrow> ('w, unit) prog" where
  "print line s = (Inr (), s\<lparr>stdout := stdout s @ [line]\<rparr>)"

text \<open>
  \<^verbatim>\<open>request(method, url, data=None)\<close>, the same function in both scripts. Its first three
  lines build the request: the body is attached under \<^verbatim>\<open>if data:\<close>. The TLS context has
  no part in what the function returns or prints.
\<close>

definition build_request :: "string \<Rightarrow> string \<Rightarrow> json \<Rightarrow> http_request" where
  "build_request method url data =
     \<lparr>rq_method = method, rq_url = url, rq_headers = HEADERS,
      rq_data = (if truthy data then Some data else None)\<rparr>"

definition request :: "'w urlopen \<Rightarrow> string \<Rightarrow> string \<Rightarrow> json \<Rightarrow> ('w, json) prog" where
  "request urlopen method url data s =
     (let req = build_request method url data;
          (res, w') = urlopen (world s) req;
          s' = s\<lparr>world := w', sent := sent s @ [req]\<rparr>
      in case res of
           Returned j \<Rightarrow> (Inr j, s')
         | Returned_undecodable \<Rightarrow> (Inl ValueError, s')
         | Raised_HTTPError status body \<Rightarrow>
             (Inr JNull,
              s'\<lparr>stdout := stdout s' @ [''Error '' @ method @ '' '' @ url @ '': '' @ body]\<rparr>)
         | Raised_HTTPError_undecodable status \<Rightarrow> (Inl ValueError, s')
         | Raised_URLError \<Rightarrow> (Inl URLError, s'))"

text \<open>The expression \<^verbatim>\<open>request(method, url, data)['result']\<close>.\<close>

definition request_result :: "'w urlopen \<Rightarrow> string \<Rightarrow> string \<Rightarrow> json \<Rightarrow> ('w, json) prog" where
  "request_result urlopen method url data =
     and_then (request urlopen method url data) (\<lambda>r. lift (subscript r ''result''))"

section \<open>The public-access enabler\<close>

text \<open>The payload of the PUT and of the POST in \<^verbatim>\<open>enable_public_api.py\<close>.\<close>

definition policy_name :: string where
  "policy_name = ''Public Access''"

definition public_access_policy :: json where
  "public_access_policy =
     JObj [(''name'', JStr policy_name),
           (''decision'', JStr ''bypass''),
           (''include'', JArr [JObj [(''everyone'', JObj [])]])]"

text \<open>The apostrophe that the printed lines put around a name.\<close>

definition apostrophe :: string where
  "apostrophe = [CHR 0x27]"

definition policies_url :: "(json \<Rightarrow> string) \<Rightarrow> json \<Rightarrow> string" where
  "policies_url repr app_id = BASE_URL @ ''/'' @ py_str repr app_id @ ''/policies''"

definition policy_url :: "(json \<Rightarrow> string) \<Rightarrow> json \<Rightarrow> json \<Rightarrow> string" where
  "policy_url repr app_id policy_id =
     BASE_URL @ ''/'' @ py_str repr app_id @ ''/policies/'' @ py_str repr policy_id"

text \<open>
  Step 3 of \<^verbatim>\<open>main\<close>: the \<^verbatim>\<open>if existing_policy: ... else: ...\<close> statement. In the PUT
  branch the line is printed before \<^verbatim>\<open>existing_policy['id']\<close> is read.
\<close>

definition upsert_public_access ::
  "'w urlopen \<Rightarrow> (json \<Rightarrow> string) \<Rightarrow> json \<Rightarrow> json \<Rightarrow> ('w, unit) prog" where
  "upsert_public_access urlopen repr app_id existing_policy =
     (if truthy existing_policy then
        and_then (print (''Policy '' @ apostrophe @ policy_name @ apostrophe @
                         '' already exists. Updating to ensure it's correct...'')) (\<lambda>_.
        and_then (lift (subscript existing_policy ''id'')) (\<lambda>policy_id.
        and_then (request urlopen ''PUT'' (policy_url repr app_id policy_id) public_access_policy)
          (\<lambda>_. ret ())))
      else
        and_then (print (''Creating '' @ apostrophe @ policy_name @ apostrophe @ '' policy...''))
          (\<lambda>_.
        and_then (request urlopen ''POST'' (policies_url repr app_id) public_access_policy)
          (\<lambda>_. ret ())))"

text \<open>\<^verbatim>\<open>main()\<close> of \<^verbatim>\<open>enable_public_api.py\<close>.\<close>

definition enable_public_api_main :: "'w urlopen \<Rightarrow> (json \<Rightarrow> string) \<Rightarrow> ('w, unit) prog" where
  "enable_public_api_main urlopen repr =
     and_then (print ''--- Enabling Public Access for api.raydoug.com ---'') (\<lambda>_.
     and_then (request_result urlopen ''GET'' (BASE_URL @ ''?per_page=100'') JNull) (\<lambda>apps.
     and_then (lift (next_match ''domain'' (JStr ''api.raydoug.com'') apps)) (\<lambda>api_app.
     if \<not> truthy api_app then print ''Error: App 'api.raydoug.com' not found!''
     else
       and_then (lift (subscript api_app ''name'')) (\<lambda>app_name.
       and_then (lift (subscript api_app ''id'')) (\<lambda>app_id.
       and_then (print (''Found App: '' @ py_str repr app_name @ '' ('' @
                        py_str repr app_id @ '')'')) (\<lambda>_.
       and_then (request_result urlopen ''GET'' (policies_url repr app_id) JNull) (\<lambda>policies.
       and_then (lift (names_of ''name'' policies)) (\<lambda>names.
       and_then (print (''Current Policies: '' @ py_str repr names)) (\<lambda>_.
       and_then (lift (next_match ''name'' (JStr policy_name) policies)) (\<lambda>existing_policy.
       and_then (upsert_public_access urlopen repr app_id existing_policy) (\<lambda>_.
       print ([CHR 0xE2, CHR 0x9C, CHR 0x85] @
              '' Success! api.raydoug.com is now public (Bypass Everyone).''))))))))))))"

section \<open>The zero-trust fixer\<close>

definition studio_app_payload :: json where
  "studio_app_payload =
     JObj [(''name'', JStr ''Supabase Studio''),
           (''domain'', JStr ''studio.raydoug.com''),
           (''type'', JStr ''self_hosted''),
           (''session_duration'', JStr ''24h'')]"

definition allow_admins_policy :: json where
  "allow_admins_policy =
     JObj [(''name'', JStr ''Allow Admins''),
           (''decision'', JStr ''allow''),
           (''include'', JArr [JObj [(''group'', JObj [(''id'', JStr ADMIN_GROUP_ID)])]])]"

definition allow_service_policy :: json where
  "allow_service_policy =
     JObj [(''name'', JStr ''Allow Service''),
           (''decision'', JStr ''allow''),
           (''include'',
            JArr [JObj [(''service_token'', JObj [(''token_id'', JStr SERVICE_TOKEN_ID)])]])]"

text \<open>The \<^verbatim>\<open>if not studio_app: ... else: ...\<close> statement; its value is \<^verbatim>\<open>studio_app\<close> after it.\<close>

definition ensure_studio_app ::
  "'w urlopen \<Rightarrow> (json \<Rightarrow> string) \<Rightarrow> json \<Rightarrow> ('w, json) prog" where
  "ensure_studio_app urlopen repr found =
     (if \<not> truthy found then
        and_then (print ''Creating Supabase Studio app...'') (\<lambda>_.
        and_then (request_result urlopen ''POST'' BASE_URL studio_app_payload) (\<lambda>created.
        and_then (lift (subscript created ''id'')) (\<lambda>app_id.
        and_then (print (''Created app: '' @ py_str repr app_id)) (\<lambda>_.
        ret created))))
      else
        and_then (lift (subscript found ''id'')) (\<lambda>app_id.
        and_then (print (''Supabase Studio app already exists: '' @ py_str repr app_id)) (\<lambda>_.
        ret found)))"

text \<open>
  \<^verbatim>\<open>if not any(p['name'] == name for p in policies): print(...); request("POST", ...)\<close>,
  once for each of the two allow policies.
\<close>

definition ensure_policy ::
  "'w urlopen \<Rightarrow> (json \<Rightarrow> string) \<Rightarrow> json \<Rightarrow> json \<Rightarrow> string \<Rightarrow> json \<Rightarrow> ('w, unit) prog" where
  "ensure_policy urlopen repr app_id policies name payload =
     and_then (lift (any_match ''name'' (JStr name) policies)) (\<lambda>present.
     if \<not> present then
       and_then (print (''Adding '' @ apostrophe @ name @ apostrophe @ '' policy...'')) (\<lambda>_.
       and_then (request urlopen ''POST'' (policies_url repr app_id) payload) (\<lambda>_. ret ()))
     else ret ())"

text \<open>Lines 37 to 75 of \<^verbatim>\<open>main()\<close> of \<^verbatim>\<open>fix_zero_trust.py\<close>: the first phase.\<close>

definition fix_zero_trust_phase1 :: "'w urlopen \<Rightarrow> (json \<Rightarrow> string) \<Rightarrow> ('w, unit) prog" where
  "fix_zero_trust_phase1 urlopen repr =
     and_then (print ''--- 1. Creating/Checking 'Supabase Studio' App ---'') (\<lambda>_.
     and_then (request_result urlopen ''GET'' BASE_URL JNull) (\<lambda>apps.
     and_then (lift (next_match ''domain'' (JStr ''studio.raydoug.com'') apps)) (\<lambda>found.
     and_then (ensure_studio_app urlopen repr found) (\<lambda>studio_app.
     and_then (print ''Configuring policies for Supabase Studio...'') (\<lambda>_.
     and_then (lift (subscript studio_app ''id'')) (\<lambda>app_id.
     and_then (request_result urlopen ''GET'' (policies_url repr app_id) JNull) (\<lambda>policies.
     and_then (ensure_policy urlopen repr app_id policies ''Allow Admins'' allow_admins_policy)
       (\<lambda>_.
     ensure_policy urlopen repr app_id policies ''Allow Service'' allow_service_policy))))))))"

text \<open>The body of \<^verbatim>\<open>for policy in app_policies\<close>.\<close>

definition bypass_name :: string where
  "bypass_name = ''Macbook dual-stack Bypass''"

definition cleanup_policy ::
  "'w urlopen \<Rightarrow> (json \<Rightarrow> string) \<Rightarrow> json \<Rightarrow> json \<Rightarrow> ('w, unit) prog" where
  "cleanup_policy urlopen repr app policy =
     and_then (lift (subscript policy ''name'')) (\<lambda>name.
     if name = JStr bypass_name then
       and_then (print (''  [DELETE] Found IP bypass policy '' @ apostrophe @ py_str repr name @
                        apostrophe @ '' - Deleting...'')) (\<lambda>_.
       and_then (lift (subscript app ''id'')) (\<lambda>app_id.
       and_then (lift (subscript policy ''id'')) (\<lambda>policy_id.
       and_then (request urlopen ''DELETE'' (policy_url repr app_id policy_id) JNull)
         (\<lambda>_. ret ()))))
     else
       and_then (lift (lower name)) (\<lambda>l.
       if str_contains ''bypass'' l \<and> str_contains ''ip'' l then ret () else ret ()))"

fun cleanup_policies ::
  "'w urlopen \<Rightarrow> (json \<Rightarrow> string) \<Rightarrow> json \<Rightarrow> json list \<Rightarrow> ('w, unit) prog" where
  "cleanup_policies urlopen repr app [] = ret ()"
| "cleanup_policies urlopen repr app (policy # rest) =
     and_then (cleanup_policy urlopen repr app policy)
       (\<lambda>_. cleanup_policies urlopen repr app rest)"

text \<open>The body of \<^verbatim>\<open>for app in apps\<close>.\<close>

definition cleanup_app :: "'w urlopen \<Rightarrow> (json \<Rightarrow> string) \<Rightarrow> json \<Rightarrow> ('w, unit) prog" where
  "cleanup_app urlopen repr app =
     and_then (lift (subscript app ''name'')) (\<lambda>app_name.
     and_then (lift (subscript app ''domain'')) (\<lambda>app_domain.
     and_then (print (''Checking app: '' @ py_str repr app_name @ '' ('' @
                      py_str repr app_domain @ '')'')) (\<lambda>_.
     and_then (lift (subscript app ''id'')) (\<lambda>app_id.
     and_then (request_result urlopen ''GET'' (policies_url repr app_id) JNull) (\<lambda>app_policies.
     and_then (lift (py_iter app_policies)) (\<lambda>ps.
     cleanup_policies urlopen repr app ps))))))"

fun cleanup_apps :: "'w urlopen \<Rightarrow> (json \<Rightarrow> string) \<Rightarrow> json list \<Rightarrow> ('w, unit) prog" where
  "cleanup_apps urlopen repr [] = ret ()"
| "cleanup_apps urlopen repr (app # rest) =
     and_then (cleanup_app urlopen repr app) (\<lambda>_. cleanup_apps urlopen repr rest)"

text \<open>Lines 77 to 93 of \<^verbatim>\<open>main()\<close> of \<^verbatim>\<open>fix_zero_trust.py\<close>: the cleanup phase.\<close>

definition fix_zero_trust_phase2 :: "'w urlopen \<Rightarrow> (json \<Rightarrow> string) \<Rightarrow> ('w, unit) prog" where
  "fix_zero_trust_phase2 urlopen repr =
     and_then (print ''\<newline>--- 2. Cleaning up 'Macbook dual-stack Bypass' from all apps ---'')
       (\<lambda>_.
     and_then (request_result urlopen ''GET'' (BASE_URL @ ''?per_page=100'') JNull) (\<lambda>apps.
     and_then (lift (py_iter apps)) (\<lambda>as.
     cleanup_apps urlopen repr as)))"

text \<open>\<^verbatim>\<open>main()\<close> of \<^verbatim>\<open>fix_zero_trust.py\<close>.\<close>

definition fix_zero_trust_main :: "'w urlopen \<Rightarrow> (json \<Rightarrow> string) \<Rightarrow> ('w, unit) prog" where
  "fix_zero_trust_main urlopen repr =
     and_then (fix_zero_trust_phase1 urlopen repr) (\<lambda>_.
     and_then (fix_zero_trust_phase2 urlopen repr) (\<lambda>_.
     print ''\<newline>--- Done! ---''))"

section \<open>Reading a run\<close>

text \<open>A run starts with nothing sent and nothing printed.\<close>

definition start :: "'w \<Rightarrow> 'w run_state" where
  "start w = \<lparr>world = w, sent = [], stdout = []\<rparr>"

text \<open>The write calls among a list of requests, and the requests of one method.\<close>

definition write_calls :: "http_request list \<Rightarrow> http_request list" where
  "write_calls rs = filter (\<lambda>r. rq_method r \<in> set [''POST'', ''PUT'', ''DELETE'']) rs"

definition calls_of :: "string \<Rightarrow> http_request list \<Rightarrow> http_request list" where
  "calls_of m rs = filter (\<lambda>r. rq_method r = m) rs"

text \<open>Two worlds that answer every request the same way, and a \<open>repr\<close> to run examples with.\<close>

definition unreachable :: "unit urlopen" where
  "unreachable w r = (Raised_URLError, w)"

definition forbidden :: "unit urlopen" where
  "forbidden w r = (Raised_HTTPError 403 ''forbidden'', w)"

definition demo_repr :: "json \<Rightarrow> string" where
  "demo_repr x = ''<repr>''"

section \<open>The Access API, as the specification describes it\<close>

text \<open>
  Modelled from the spec: the Access API server is not part of the repository. Sections 3
  (data model) and 6 (external interfaces) of the specification describe it: an application
  has an opaque identifier, a domain, a display name, a type and a session duration; a
  policy belongs to one application and has an opaque identifier, a name, a decision and an
  inclusion rule.
\<close>

record policy =
  p_id :: string
  p_name :: string
  p_decision :: string
  p_include :: json

record app =
  a_id :: string
  a_name :: string
  a_domain :: string
  a_type :: string
  a_session_duration :: string
  a_policies :: "policy list"

text \<open>
  Modelled from the spec: "responses are JSON envelopes with a \<^verbatim>\<open>result\<close> field"; an
  application and a policy are listed with the attributes of section 3.
\<close>

definition envelope :: "json \<Rightarrow> json" where
  "envelope x = JObj [(''result'', x)]"

definition policy_json :: "policy \<Rightarrow> json" where
  "policy_json p =
     JObj [(''id'', JStr (p_id p)), (''name'', JStr (p_name p)),
           (''decision'', JStr (p_decision p)), (''include'', p_include p)]"

definition app_json :: "app \<Rightarrow> json" where
  "app_json a =
     JObj [(''id'', JStr (a_id a)), (''name'', JStr (a_name a)), (''domain'', JStr (a_domain a)),
           (''type'', JStr (a_type a)), (''session_duration'', JStr (a_session_duration a))]"

text \<open>
  Modelled from the spec: "create an application (name, domain, type, session duration)" and
  "create a policy (name, decision, include rule)". A payload without these fields is
  refused.
\<close>

definition str_field :: "json \<Rightarrow> string \<Rightarrow> string option" where
  "str_field x k = (case subscript x k of Inr (JStr s) \<Rightarrow> Some s | _ \<Rightarrow> None)"

definition any_field :: "json \<Rightarrow> string \<Rightarrow> json option" where
  "any_field x k = (case subscript x k of Inr v \<Rightarrow> Some v | Inl e \<Rightarrow> None)"

definition policy_of_payload :: "string \<Rightarrow> json \<Rightarrow> policy option" where
  "policy_of_payload new_id x =
     (case (str_field x ''name'', str_field x ''decision'', any_field x ''include'') of
        (Some n, Some d, Some i) \<Rightarrow>
          Some \<lparr>p_id = new_id, p_name = n, p_decision = d, p_include = i\<rparr>
      | _ \<Rightarrow> None)"

definition app_of_payload :: "string \<Rightarrow> json \<Rightarrow> app option" where
  "app_of_payload new_id x =
     (case (str_field x ''name'', str_field x ''domain'', str_field x ''type'',
            str_field x ''session_duration'') of
        (Some n, Some d, Some t, Some sd) \<Rightarrow>
          Some \<lparr>a_id = new_id, a_name = n, a_domain = d, a_type = t, a_session_duration = sd,
                a_policies = []\<rparr>
      | _ \<Rightarrow> None)"

text \<open>
  Modelled from the spec: identifiers are opaque. A new one is a string longer than every
  identifier in use, so it is none of them.
\<close>

definition used_ids :: "app list \<Rightarrow> string list" where
  "used_ids srv = map a_id srv @ concat (map (\<lambda>a. map p_id (a_policies a)) srv)"

definition fresh_id :: "app list \<Rightarrow> string" where
  "fresh_id srv = replicate (Suc (foldr (\<lambda>i. max (length i)) (used_ids srv) 0)) CHR ''x''"

text \<open>
  Modelled from the spec: the paths \<^verbatim>\<open>{base}/apps/{id}/policies\<close> and
  \<^verbatim>\<open>{base}/apps/{id}/policies/{id}\<close> of section 6 (\<open>BASE_URL\<close> ends in \<^verbatim>\<open>/apps\<close>).
\<close>

definition app_policies_path :: "app \<Rightarrow> string" where
  "app_policies_path a = BASE_URL @ ''/'' @ a_id a @ ''/policies''"

definition item_path :: "app \<Rightarrow> policy \<Rightarrow> string" where
  "item_path a p = BASE_URL @ ''/'' @ a_id a @ ''/policies/'' @ p_id p"

definition find_item :: "string \<Rightarrow> app list \<Rightarrow> (app \<times> policy) option" where
  "find_item u srv =
     find (\<lambda>ap. u = item_path (fst ap) (snd ap))
       (concat (map (\<lambda>a. map (Pair a) (a_policies a)) srv))"

text \<open>
  Modelled from the spec: POST "create a policy", PUT "replace a policy's fields" (the
  identifier stays), DELETE "remove a policy".
\<close>

definition add_policy :: "string \<Rightarrow> policy \<Rightarrow> app list \<Rightarrow> app list" where
  "add_policy aid p srv =
     map (\<lambda>a. if a_id a = aid then a\<lparr>a_policies := a_policies a @ [p]\<rparr> else a) srv"

definition set_fields :: "policy \<Rightarrow> policy \<Rightarrow> policy" where
  "set_fields new p =
     p\<lparr>p_name := p_name new, p_decision := p_decision new, p_include := p_include new\<rparr>"

definition replace_policy :: "string \<Rightarrow> string \<Rightarrow> policy \<Rightarrow> app list \<Rightarrow> app list" where
  "replace_policy aid pid new srv =
     map (\<lambda>a. if a_id a = aid
               then a\<lparr>a_policies :=
                        map (\<lambda>p. if p_id p = pid then set_fields new p else p) (a_policies a)\<rparr>
               else a) srv"

definition delete_policy :: "string \<Rightarrow> string \<Rightarrow> app list \<Rightarrow> app list" where
  "delete_policy aid pid srv =
     map (\<lambda>a. if a_id a = aid
               then a\<lparr>a_policies := filter (\<lambda>p. p_id p \<noteq> pid) (a_policies a)\<rparr>
               else a) srv"

definition not_found :: outcome where
  "not_found = Raised_HTTPError 404 ''not found''"

definition bad_request :: outcome where
  "bad_request = Raised_HTTPError 400 ''bad request''"

text \<open>
  Modelled from the spec: the seven calls of section 6, answered from the list of
  applications the server holds. Every listing is complete (the specification describes no
  paging), an unknown path is answered with status 404, a payload that cannot be read with
  400, and no call fails otherwise.
\<close>

definition access_api :: "app list urlopen" where
  "access_api srv r =
     (let m = rq_method r; u = rq_url r in
      if m = ''GET'' \<and> (u = BASE_URL \<or> u = BASE_URL @ ''?per_page=100'') then
        (Returned (envelope (JArr (map app_json srv))), srv)
      else if m = ''POST'' \<and> u = BASE_URL then
        (case rq_data r of
           None \<Rightarrow> (bad_request, srv)
         | Some d \<Rightarrow>
            (case app_of_payload (fresh_id srv) d of
               None \<Rightarrow> (bad_request, srv)
             | Some a \<Rightarrow> (Returned (envelope (app_json a)), srv @ [a])))
      else if m = ''GET'' then
        (case find (\<lambda>a. u = app_policies_path a) srv of
           None \<Rightarrow> (not_found, srv)
         | Some a \<Rightarrow> (Returned (envelope (JArr (map policy_json (a_policies a)))), srv))
      else if m = ''POST'' then
        (case find (\<lambda>a. u = app_policies_path a) srv of
           None \<Rightarrow> (not_found, srv)
         | Some a \<Rightarrow>
            (case rq_data r of
               None \<Rightarrow> (bad_request, srv)
             | Some d \<Rightarrow>
                (case policy_of_payload (fresh_id srv) d of
                   None \<Rightarrow> (bad_request, srv)
                 | Some p \<Rightarrow> (Returned (envelope (policy_json p)), add_policy (a_id a) p srv))))
      else if m = ''PUT'' then
        (case find_item u srv of
           None \<Rightarrow> (not_found, srv)
         | Some (a, p) \<Rightarrow>
            (case rq_data r of
               None \<Rightarrow> (bad_request, srv)
             | Some d \<Rightarrow>
                (case policy_of_payload (p_id p) d of
                   None \<Rightarrow> (bad_request, srv)
                 | Some new \<Rightarrow>
                     (Returned (envelope (policy_json new)),
                      replace_policy (a_id a) (p_id p) new srv))))
      else if m = ''DELETE'' then
        (case find_item u srv of
           None \<Rightarrow> (not_found, srv)
         | Some (a, p) \<Rightarrow>
            (Returned (envelope (JObj [(''id'', JStr (p_id p))])),
             delete_policy (a_id a) (p_id p) srv))
      else (Raised_HTTPError 405 ''method not allowed'', srv))"

text \<open>
  Modelled from the spec: identifiers identify. Application identifiers are pairwise
  distinct and fit in one path segment; policy identifiers are distinct within their
  application.
\<close>

definition wf_server :: "app list \<Rightarrow> bool" where
  "wf_server srv \<longleftrightarrow>
     distinct (map a_id srv) \<and>
     list_all (\<lambda>a. CHR ''/'' \<notin> set (a_id a) \<and> distinct (map p_id (a_policies a))) srv"

text \<open>A server state to run the procedures on.\<close>

definition blog_app :: app where
  "blog_app =
     \<lparr>a_id = ''a1'', a_name = ''Blog'', a_domain = ''blog.raydoug.com'', a_type = ''self_hosted'',
      a_session_duration = ''24h'',
      a_policies =
        [\<lparr>p_id = ''p1'', p_name = ''Macbook dual-stack Bypass'', p_decision = ''bypass'',
          p_include = JArr [JObj [(''ip'', JObj [(''ip'', JStr ''10.0.0.1/32'')])]]\<rparr>,
         \<lparr>p_id = ''p2'', p_name = ''Staff'', p_decision = ''allow'',
          p_include = JArr [JObj [(''everyone'', JObj [])]]\<rparr>]\<rparr>"

definition api_app :: app where
  "api_app =
     \<lparr>a_id = ''a2'', a_name = ''API'', a_domain = ''api.raydoug.com'', a_type = ''self_hosted'',
      a_session_duration = ''24h'',
      a_policies =
        [\<lparr>p_id = ''p1'', p_name = ''Office IP bypass'', p_decision = ''bypass'',
          p_include = JArr []\<rparr>,
         \<lparr>p_id = ''p3'', p_name = ''Public Access'', p_decision = ''allow'',
          p_include = JArr []\<rparr>,
         \<lparr>p_id = ''p4'', p_name = ''Public Access'', p_decision = ''allow'',
          p_include = JArr []\<rparr>]\<rparr>"

definition demo_server :: "app list" where
  "demo_server = [blog_app, api_app]"

section \<open>What the cleanup does to the server\<close>

text \<open>
  The policies the cleanup is after, the server state without them, and the requests the
  cleanup loop makes for one application: the GET of its policies, then one DELETE for each
  policy of that name, in listing order.
\<close>

definition named_bypass :: "policy \<Rightarrow> bool" where
  "named_bypass p = (p_name p = bypass_name)"

definition purge :: "app list \<Rightarrow> app list" where
  "purge srv = map (\<lambda>a. a\<lparr>a_policies := filter (\<lambda>p. \<not> named_bypass p) (a_policies a)\<rparr>) srv"

definition delete_call :: "string \<Rightarrow> policy \<Rightarrow> http_request" where
  "delete_call aid p =
     build_request ''DELETE'' (BASE_URL @ ''/'' @ aid @ ''/policies/'' @ p_id p) JNull"

definition cleanup_calls :: "app \<Rightarrow> http_request list" where
  "cleanup_calls a =
     build_request ''GET'' (BASE_URL @ ''/'' @ a_id a @ ''/policies'') JNull #
     map (delete_call (a_id a)) (filter named_bypass (a_policies a))"

text \<open>Intermediate server states of the loops, and the part of \<open>wf_server\<close> that routing needs.\<close>

definition slash_free :: "app list \<Rightarrow> bool" where
  "slash_free srv = list_all (\<lambda>a. CHR ''/'' \<notin> set (a_id a)) srv"

definition remove_policies :: "string \<Rightarrow> string list \<Rightarrow> app list \<Rightarrow> app list" where
  "remove_policies aid pids srv =
     map (\<lambda>a. if a_id a = aid
               then a\<lparr>a_policies := filter (\<lambda>p. p_id p \<notin> set pids) (a_policies a)\<rparr>
               else a) srv"

definition purge_apps :: "string list \<Rightarrow> app list \<Rightarrow> app list" where
  "purge_apps aids srv =
     map (\<lambda>a. if a_id a \<in> set aids
               then a\<lparr>a_policies := filter (\<lambda>p. \<not> named_bypass p) (a_policies a)\<rparr>
               else a) srv"

section \<open>What the public-access enabler does to the server\<close>

text \<open>
  The bypass-everyone policy under a given identifier, and the server state after one run
  of the enabler: the first policy named "Public Access" of the first application with the
  domain gets the three fields of the payload; when there is none, a policy with them is
  added to that application; when there is no such application, nothing changes.
\<close>

definition public_access :: "string \<Rightarrow> policy" where
  "public_access i =
     \<lparr>p_id = i, p_name = policy_name, p_decision = ''bypass'',
      p_include = JArr [JObj [(''everyone'', JObj [])]]\<rparr>"

definition enabled :: "app list \<Rightarrow> app list" where
  "enabled srv =
     (case find (\<lambda>a. a_domain a = ''api.raydoug.com'') srv of
        None \<Rightarrow> srv
      | Some a \<Rightarrow>
         (case find (\<lambda>p. p_name p = policy_name) (a_policies a) of
            Some p \<Rightarrow> replace_policy (a_id a) (p_id p) (public_access (p_id p)) srv
          | None \<Rightarrow> add_policy (a_id a) (public_access (fresh_id srv)) srv))"

section \<open>What the first phase of the fixer does to the server\<close>

text \<open>
  Whether a listing holds an entry whose field \<open>k\<close> has the value \<open>v\<close>; a value that cannot
  be iterated lists nothing.
\<close>

definition listed :: "string \<Rightarrow> json \<Rightarrow> json \<Rightarrow> bool" where
  "listed k v x =
     (case py_iter x of Inl e \<Rightarrow> False | Inr xs \<Rightarrow> list_ex (\<lambda>a. subscript a k = Inr v) xs)"

text \<open>A program that, from any state, only adds requests whose method is in \<open>M\<close>.\<close>

definition sends_only :: "string set \<Rightarrow> ('w, 'a) prog \<Rightarrow> bool" where
  "sends_only M m =
     (\<forall>s. \<exists>rs. sent (snd (m s)) = sent s @ rs \<and> (\<forall>r\<in>set rs. rq_method r \<in> M))"

text \<open>
  What the server makes of the three payloads of \<^verbatim>\<open>fix_zero_trust.py\<close> under a given
  identifier.
\<close>

definition studio_app :: "string \<Rightarrow> app" where
  "studio_app i =
     \<lparr>a_id = i, a_name = ''Supabase Studio'', a_domain = ''studio.raydoug.com'',
      a_type = ''self_hosted'', a_session_duration = ''24h'', a_policies = []\<rparr>"

definition allow_admins :: "string \<Rightarrow> policy" where
  "allow_admins i =
     \<lparr>p_id = i, p_name = ''Allow Admins'', p_decision = ''allow'',
      p_include = JArr [JObj [(''group'', JObj [(''id'', JStr ADMIN_GROUP_ID)])]]\<rparr>"

definition allow_service :: "string \<Rightarrow> policy" where
  "allow_service i =
     \<lparr>p_id = i, p_name = ''Allow Service'', p_decision = ''allow'',
      p_include = JArr [JObj [(''service_token'', JObj [(''token_id'', JStr SERVICE_TOKEN_ID)])]]\<rparr>"

text \<open>
  Whether the server holds an application with the studio domain, the application the
  first phase works on (the first with that domain, or the one it creates), and whether an
  application has a policy of a given name.
\<close>

definition has_studio :: "app list \<Rightarrow> bool" where
  "has_studio srv = list_ex (\<lambda>a. a_domain a = ''studio.raydoug.com'') srv"

definition studio_of :: "app list \<Rightarrow> app" where
  "studio_of srv =
     (case find (\<lambda>a. a_domain a = ''studio.raydoug.com'') srv of
        None \<Rightarrow> studio_app (fresh_id srv)
      | Some a \<Rightarrow> a)"

definition has_policy :: "string \<Rightarrow> app \<Rightarrow> bool" where
  "has_policy name a = (name \<in> set (map p_name (a_policies a)))"

text \<open>
  The server state after the first phase: the application is added when none has the
  domain; each allow policy is added when the listing of the application's policies, taken
  once before both checks, has none of its name.
\<close>

definition with_studio :: "app list \<Rightarrow> app list" where
  "with_studio srv = (if has_studio srv then srv else srv @ [studio_app (fresh_id srv)])"

definition with_policy :: "string \<Rightarrow> (string \<Rightarrow> policy) \<Rightarrow> app \<Rightarrow> app list \<Rightarrow> app list" where
  "with_policy name mk a srv =
     (if has_policy name a then srv else add_policy (a_id a) (mk (fresh_id srv)) srv)"

definition provisioned :: "app list \<Rightarrow> app list" where
  "provisioned srv =
     with_policy ''Allow Service'' allow_service (studio_of srv)
       (with_policy ''Allow Admins'' allow_admins (studio_of srv) (with_studio srv))"

text \<open>The POST requests of the first phase, and all its requests, in order.\<close>

definition phase1_posts :: "app list \<Rightarrow> http_request list" where
  "phase1_posts srv =
     (if has_studio srv then [] else [build_request ''POST'' BASE_URL studio_app_payload]) @
     (if has_policy ''Allow Admins'' (studio_of srv) then []
      else [build_request ''POST'' (app_policies_path (studio_of srv)) allow_admins_policy]) @
     (if has_policy ''Allow Service'' (studio_of srv) then []
      else [build_request ''POST'' (app_policies_path (studio_of srv)) allow_service_policy])"

definition phase1_calls :: "app list \<Rightarrow> http_request list" where
  "phase1_calls srv =
     build_request ''GET'' BASE_URL JNull #
     (if has_studio srv then [] else [build_request ''POST'' BASE_URL studio_app_payload]) @
     build_request ''GET'' (app_policies_path (studio_of srv)) JNull #
     (if has_policy ''Allow Admins'' (studio_of srv) then []
      else [build_request ''POST'' (app_policies_path (studio_of srv)) allow_admins_policy]) @
     (if has_policy ''Allow Service'' (studio_of srv) then []
      else [build_request ''POST'' (app_policies_path (studio_of srv)) allow_service_policy])"

section \<open>Running programs step by step\<close>

lemma and_then_lift_Inr [simp]: "and_then (lift (Inr x)) f s = f x s"
  by (simp add: and_then_def lift_def)

lemma and_then_lift_Inl [simp]: "and_then (lift (Inl e)) f s = (Inl e, s)"
  by (simp add: and_then_def lift_def)

lemma and_then_ret [simp]: "and_then (ret x) f s = f x s"
  by (simp add: and_then_def ret_def)

lemma and_then_print [simp]:
  "and_then (print line) f s = f () (s\<lparr>stdout := stdout s @ [line]\<rparr>)"
  by (simp add: and_then_def print_def)

lemma and_then_Inl: "m s = (Inl e, s') \<Longrightarrow> and_then m f s = (Inl e, s')"
  by (simp add: and_then_def)

lemma and_then_Inr: "m s = (Inr x, s') \<Longrightarrow> and_then m f s = f x s'"
  by (simp add: and_then_def)

lemma and_then_assoc: "and_then (and_then m f) g = and_then m (\<lambda>x. and_then (f x) g)"
  by (rule ext) (simp add: and_then_def split: prod.splits sum.splits)

lemma and_then_request:
  "and_then (request urlopen m u d) f s =
     (let req = build_request m u d in
      case urlopen (world s) req of
        (Returned j, w') \<Rightarrow> f j (s\<lparr>world := w', sent := sent s @ [req]\<rparr>)
      | (Returned_undecodable, w') \<Rightarrow>
          (Inl ValueError, s\<lparr>world := w', sent := sent s @ [req]\<rparr>)
      | (Raised_HTTPError st b, w') \<Rightarrow>
          f JNull (s\<lparr>world := w', sent := sent s @ [req],
                     stdout := stdout s @ [''Error '' @ m @ '' '' @ u @ '': '' @ b]\<rparr>)
      | (Raised_HTTPError_undecodable st, w') \<Rightarrow>
          (Inl ValueError, s\<lparr>world := w', sent := sent s @ [req]\<rparr>)
      | (Raised_URLError, w') \<Rightarrow> (Inl URLError, s\<lparr>world := w', sent := sent s @ [req]\<rparr>))"
  by (simp add: and_then_def request_def Let_def split: prod.splits outcome.splits)

lemma and_then_request_result:
  "and_then (request_result urlopen m u d) f =
   and_then (request urlopen m u d) (\<lambda>r. and_then (lift (subscript r ''result'')) f)"
  by (simp add: request_result_def and_then_assoc)

lemma request_sent:
  "sent (snd (request urlopen m u d s)) = sent s @ [build_request m u d]"
  by (simp add: request_def Let_def split: prod.splits outcome.splits)

section \<open>Lookups in a listing\<close>

lemma first_match_skip:
  "\<forall>a\<in>set pre. \<exists>d. subscript a k = Inr d \<and> d \<noteq> v \<Longrightarrow>
   first_match k v (pre @ rest) = first_match k v rest"
  by (induction pre) auto

lemma first_match_none:
  "\<forall>a\<in>set xs. \<exists>d. subscript a k = Inr d \<and> d \<noteq> v \<Longrightarrow> first_match k v xs = Inr JNull"
  by (induction xs) auto

lemma any_match_list_skip:
  "\<forall>a\<in>set pre. \<exists>d. subscript a k = Inr d \<and> d \<noteq> v \<Longrightarrow>
   any_match_list k v (pre @ rest) = any_match_list k v rest"
  by (induction pre) auto

lemma subscript_all_total:
  "\<forall>a\<in>set xs. \<exists>d. subscript a k = Inr d \<Longrightarrow> \<exists>ds. subscript_all k xs = Inr ds"
  by (induction xs) auto

lemma subscript_truthy: "subscript a k = Inr d \<Longrightarrow> truthy a"
  by (cases a) (auto split: option.splits)

section \<open>The API client\<close>

text \<open>
  C1, as the code has it. When \<^verbatim>\<open>urlopen\<close> raises \<^verbatim>\<open>HTTPError\<close> (an error status) with a
  body that is UTF-8 text, \<^verbatim>\<open>request\<close> prints one line made of the method, the URL and the
  body, and returns \<^verbatim>\<open>None\<close>. When \<^verbatim>\<open>urlopen\<close> returns a body that decodes to a JSON
  value, \<^verbatim>\<open>request\<close> returns that value and prints nothing. When \<^verbatim>\<open>urlopen\<close> raises
  \<^verbatim>\<open>URLError\<close> (a transport error that is no error status), the exception is not caught
  and leaves \<^verbatim>\<open>request\<close>.
\<close>

theorem request_outcomes:
  assumes "urlopen (world s) (build_request method url data) = (res, w')"
  shows "(res = Raised_HTTPError status body \<longrightarrow>
            request urlopen method url data s =
              (Inr JNull,
               s\<lparr>world := w', sent := sent s @ [build_request method url data],
                 stdout := stdout s @ [''Error '' @ method @ '' '' @ url @ '': '' @ body]\<rparr>))
       \<and> (res = Returned j \<longrightarrow>
            request urlopen method url data s =
              (Inr j, s\<lparr>world := w', sent := sent s @ [build_request method url data]\<rparr>))
       \<and> (res = Raised_URLError \<longrightarrow>
            request urlopen method url data s =
              (Inl URLError, s\<lparr>world := w', sent := sent s @ [build_request method url data]\<rparr>))"
  using assms by (simp add: request_def)

theorem request_outcomes_witness:
  "request forbidden ''GET'' BASE_URL JNull (start ()) =
     (Inr JNull,
      \<lparr>world = (), sent = [build_request ''GET'' BASE_URL JNull],
       stdout = [''Error GET '' @ BASE_URL @ '': forbidden'']\<rparr>)
   \<and> request access_api ''GET'' BASE_URL JNull (start []) =
     (Inr (JObj [(''result'', JArr [])]),
      \<lparr>world = [], sent = [build_request ''GET'' BASE_URL JNull], stdout = []\<rparr>)
   \<and> request unreachable ''GET'' BASE_URL JNull (start ()) =
     (Inl URLError, \<lparr>world = (), sent = [build_request ''GET'' BASE_URL JNull], stdout = []\<rparr>)"
  using request_outcomes [of forbidden "start ()" "''GET''" BASE_URL JNull
      "Raised_HTTPError 403 ''forbidden''" "()" 403 "''forbidden''"]
    request_outcomes [of access_api "start []" "''GET''" BASE_URL JNull
      "Returned (JObj [(''result'', JArr [])])" "[]" _ _ "JObj [(''result'', JArr [])]"]
    request_outcomes [of unreachable "start ()" "''GET''" BASE_URL JNull Raised_URLError "()"]
  by (simp add: forbidden_def unreachable_def access_api_def envelope_def start_def
      build_request_def)

text \<open>
  C1, as the claim states it, fails: on a transport error \<^verbatim>\<open>request\<close> does not return
  \<^verbatim>\<open>None\<close>; \<^verbatim>\<open>URLError\<close> propagates to the caller.
\<close>

theorem request_raises_on_transport_error:
  "fst (request unreachable ''GET'' BASE_URL JNull (start ())) = Inl URLError"
  by (simp add: request_def unreachable_def start_def)

text \<open>
  C10: \<^verbatim>\<open>request\<close> attaches a body exactly when the payload is truthy. With the default
  \<^verbatim>\<open>None\<close>, an empty dict or an empty list, the request that is sent has no body, and the
  three calls are the same call.
\<close>

theorem request_body_only_when_truthy:
  "rq_data (build_request method url data) = (if truthy data then Some data else None)
   \<and> sent (snd (request urlopen method url data s)) = sent s @ [build_request method url data]
   \<and> rq_data (build_request method url JNull) = None
   \<and> build_request method url (JObj []) = build_request method url JNull
   \<and> build_request method url (JArr []) = build_request method url JNull
   \<and> request urlopen method url (JObj []) s = request urlopen method url JNull s
   \<and> request urlopen method url (JArr []) s = request urlopen method url JNull s"
proof -
  have "build_request method url (JObj []) = build_request method url JNull"
    and "build_request method url (JArr []) = build_request method url JNull"
    by (simp_all add: build_request_def)
  then have "request urlopen method url (JObj []) s = request urlopen method url JNull s"
    and "request urlopen method url (JArr []) s = request urlopen method url JNull s"
    by (simp_all add: request_def)
  moreover have "rq_data (build_request method url data) =
      (if truthy data then Some data else None)"
    and "rq_data (build_request method url JNull) = None"
    and "build_request method url (JObj []) = build_request method url JNull"
    and "build_request method url (JArr []) = build_request method url JNull"
    by (simp_all add: build_request_def)
  ultimately show ?thesis
    by (simp only: request_sent simp_thms)
qed

section \<open>First match\<close>

text \<open>
  C9: a lookup by domain or by name (\<^verbatim>\<open>next(...)\<close> in both scripts, \<^verbatim>\<open>any(...)\<close> in the
  fixer) takes the first element of the listing whose field has the value looked for.
  Whatever follows it in the listing, another element with the same value included, has no
  part in the result.
\<close>

theorem lookup_takes_first_match:
  assumes "\<forall>a\<in>set pre. \<exists>d. subscript a k = Inr d \<and> d \<noteq> v"
    and "subscript hit k = Inr v"
  shows "next_match k v (JArr (pre @ hit # rest)) = Inr hit
       \<and> next_match k v (JArr (pre @ hit # rest)) = next_match k v (JArr (pre @ [hit]))
       \<and> any_match k v (JArr (pre @ hit # rest)) = Inr True"
  using assms by (simp add: next_match_def any_match_def first_match_skip any_match_list_skip)

theorem lookup_takes_first_match_witness:
  "next_match ''name'' (JStr ''Public Access'')
     (JArr (map policy_json (a_policies api_app))) =
     Inr (policy_json \<lparr>p_id = ''p3'', p_name = ''Public Access'', p_decision = ''allow'',
                       p_include = JArr []\<rparr>)"
  using lookup_takes_first_match [of
      "[policy_json \<lparr>p_id = ''p1'', p_name = ''Office IP bypass'', p_decision = ''bypass'',
                     p_include = JArr []\<rparr>]"
      "''name''" "JStr ''Public Access''"
      "policy_json \<lparr>p_id = ''p3'', p_name = ''Public Access'', p_decision = ''allow'',
                    p_include = JArr []\<rparr>"
      "[policy_json \<lparr>p_id = ''p4'', p_name = ''Public Access'', p_decision = ''allow'',
                     p_include = JArr []\<rparr>]"]
  by (simp add: api_app_def policy_json_def)


section \<open>The public-access enabler against any world\<close>

text \<open>
  C6: when the listing of applications is returned and none of the listed applications has
  the domain \<^verbatim>\<open>api.raydoug.com\<close>, \<^verbatim>\<open>main\<close> prints the not-found line and returns; the
  only request of the run is the GET of the listing, so no POST, PUT or DELETE is issued.
\<close>

theorem enabler_app_absent_no_writes:
  assumes "urlopen (world s) (build_request ''GET'' (BASE_URL @ ''?per_page=100'') JNull) =
             (Returned body, w')"
    and "subscript body ''result'' = Inr (JArr apps)"
    and "\<forall>a\<in>set apps. \<exists>d. subscript a ''domain'' = Inr d \<and> d \<noteq> JStr ''api.raydoug.com''"
  shows "enable_public_api_main urlopen repr s =
           (Inr (),
            s\<lparr>world := w',
              sent := sent s @ [build_request ''GET'' (BASE_URL @ ''?per_page=100'') JNull],
              stdout := stdout s @ [''--- Enabling Public Access for api.raydoug.com ---'',
                                    ''Error: App 'api.raydoug.com' not found!'']\<rparr>)
       \<and> write_calls (sent (snd (enable_public_api_main urlopen repr s))) = write_calls (sent s)"
proof -
  have run: "enable_public_api_main urlopen repr s =
           (Inr (),
            s\<lparr>world := w',
              sent := sent s @ [build_request ''GET'' (BASE_URL @ ''?per_page=100'') JNull],
              stdout := stdout s @ [''--- Enabling Public Access for api.raydoug.com ---'',
                                    ''Error: App 'api.raydoug.com' not found!'']\<rparr>)"
    using assms
    by (simp add: enable_public_api_main_def and_then_request_result and_then_request
        next_match_def first_match_none print_def)
  show ?thesis
    unfolding run by (simp add: write_calls_def build_request_def)
qed

theorem enabler_app_absent_no_writes_witness:
  "enable_public_api_main access_api demo_repr (start [blog_app]) =
     (Inr (),
      \<lparr>world = [blog_app],
       sent = [build_request ''GET'' (BASE_URL @ ''?per_page=100'') JNull],
       stdout = [''--- Enabling Public Access for api.raydoug.com ---'',
                 ''Error: App 'api.raydoug.com' not found!'']\<rparr>)
   \<and> write_calls (sent (snd (enable_public_api_main access_api demo_repr (start [blog_app])))) = []"
  using enabler_app_absent_no_writes [of access_api "start [blog_app]"
      "envelope (JArr [app_json blog_app])" "[blog_app]" "[app_json blog_app]" demo_repr]
  by (simp add: access_api_def build_request_def start_def envelope_def app_json_def
      blog_app_def write_calls_def)

text \<open>
  C3: when the listing of policies is returned and holds a policy named "Public Access",
  the requests of the run are the two GETs and one PUT, sent to the path of the first such
  policy under the identifier the listing gives it, with the bypass-everyone payload. No
  POST is issued, whatever the listing holds after that policy and whatever the PUT is
  answered.
\<close>

theorem enabler_updates_in_place:
  assumes "urlopen (world s) (build_request ''GET'' (BASE_URL @ ''?per_page=100'') JNull) =
             (Returned body1, w1)"
    and "subscript body1 ''result'' = Inr apps"
    and "next_match ''domain'' (JStr ''api.raydoug.com'') apps = Inr the_app"
    and "subscript the_app ''name'' = Inr app_name"
    and "subscript the_app ''id'' = Inr app_id"
    and "urlopen w1 (build_request ''GET'' (policies_url repr app_id) JNull) =
             (Returned body2, w2)"
    and "subscript body2 ''result'' = Inr (JArr (pre @ p # rest))"
    and "\<forall>q\<in>set pre. \<exists>d. subscript q ''name'' = Inr d \<and> d \<noteq> JStr policy_name"
    and "subscript p ''name'' = Inr (JStr policy_name)"
    and "subscript p ''id'' = Inr pid"
    and "\<forall>q\<in>set rest. \<exists>d. subscript q ''name'' = Inr d"
  shows "sent (snd (enable_public_api_main urlopen repr s)) =
           sent s @ [build_request ''GET'' (BASE_URL @ ''?per_page=100'') JNull,
                     build_request ''GET'' (policies_url repr app_id) JNull,
                     build_request ''PUT'' (policy_url repr app_id pid) public_access_policy]
       \<and> calls_of ''POST'' (sent (snd (enable_public_api_main urlopen repr s))) =
           calls_of ''POST'' (sent s)"
proof -
  have "\<forall>q\<in>set (pre @ p # rest). \<exists>d. subscript q ''name'' = Inr d"
    using assms(8,9,11) by auto
  then obtain names where names: "subscript_all ''name'' (pre @ p # rest) = Inr names"
    using subscript_all_total by blast
  have found: "first_match ''name'' (JStr policy_name) (pre @ p # rest) = Inr p"
    using assms(8,9) by (simp add: first_match_skip)
  have tp: "truthy p" and ta: "truthy the_app"
    using assms(5,10) subscript_truthy by blast+
  obtain res3 w3 where put:
    "urlopen w2 (build_request ''PUT'' (policy_url repr app_id pid) public_access_policy) =
       (res3, w3)"
    by (cases "urlopen w2 (build_request ''PUT'' (policy_url repr app_id pid)
          public_access_policy)") blast
  have run: "sent (snd (enable_public_api_main urlopen repr s)) =
           sent s @ [build_request ''GET'' (BASE_URL @ ''?per_page=100'') JNull,
                     build_request ''GET'' (policies_url repr app_id) JNull,
                     build_request ''PUT'' (policy_url repr app_id pid) public_access_policy]"
    using assms(1-7,10) names found tp ta put
    by (cases res3)
      (simp_all add: enable_public_api_main_def and_then_request_result and_then_request
        upsert_public_access_def and_then_assoc next_match_def names_of_def print_def)
  show ?thesis
    unfolding run by (simp add: calls_of_def build_request_def)
qed

theorem enabler_updates_in_place_witness:
  "sent (snd (enable_public_api_main access_api demo_repr (start demo_server))) =
     [build_request ''GET'' (BASE_URL @ ''?per_page=100'') JNull,
      build_request ''GET'' (BASE_URL @ ''/a2/policies'') JNull,
      build_request ''PUT'' (BASE_URL @ ''/a2/policies/p3'') public_access_policy]
   \<and> calls_of ''POST'' (sent (snd (enable_public_api_main access_api demo_repr
        (start demo_server)))) = []"
  using enabler_updates_in_place [of access_api "start demo_server"
      "envelope (JArr (map app_json demo_server))" demo_server
      "JArr (map app_json demo_server)" "app_json api_app" "JStr ''API''" "JStr ''a2''"
      demo_repr "envelope (JArr (map policy_json (a_policies api_app)))" demo_server
      "[policy_json \<lparr>p_id = ''p1'', p_name = ''Office IP bypass'', p_decision = ''bypass'',
                     p_include = JArr []\<rparr>]"
      "policy_json \<lparr>p_id = ''p3'', p_name = ''Public Access'', p_decision = ''allow'',
                    p_include = JArr []\<rparr>"
      "[policy_json \<lparr>p_id = ''p4'', p_name = ''Public Access'', p_decision = ''allow'',
                     p_include = JArr []\<rparr>]"
      "JStr ''p3''"]
  by (simp add: access_api_def build_request_def start_def envelope_def app_json_def
      policy_json_def demo_server_def blog_app_def api_app_def calls_of_def next_match_def
      policies_url_def policy_url_def py_str_def policy_name_def app_policies_path_def)

section \<open>Null results\<close>

text \<open>
  C7: no caller guards the result of a listing request. Whenever \<^verbatim>\<open>request\<close> returns
  \<^verbatim>\<open>None\<close>, the expression \<^verbatim>\<open>request(...)['result']\<close> raises \<^verbatim>\<open>TypeError\<close>. In the
  enabler, an error status on the listing of applications ends \<^verbatim>\<open>main\<close> with that
  exception after the one GET. In the cleanup loop, an error status on the listing of one
  application's policies ends the loop with that exception: no request is made for the
  applications that follow.
\<close>

theorem null_listing_is_unguarded:
  assumes "request urlopen0 m u d s0 = (Inr JNull, s0')"
    and "urlopen (world s) (build_request ''GET'' (BASE_URL @ ''?per_page=100'') JNull) =
             (Raised_HTTPError st b, w')"
    and "subscript app ''name'' = Inr nm"
    and "subscript app ''domain'' = Inr dm"
    and "subscript app ''id'' = Inr i"
    and "urlopen2 (world t) (build_request ''GET'' (policies_url repr i) JNull) =
             (Raised_HTTPError st2 b2, w2)"
  shows "request_result urlopen0 m u d s0 = (Inl TypeError, s0')
       \<and> enable_public_api_main urlopen repr s =
           (Inl TypeError,
            s\<lparr>world := w',
              sent := sent s @ [build_request ''GET'' (BASE_URL @ ''?per_page=100'') JNull],
              stdout := stdout s @ [''--- Enabling Public Access for api.raydoug.com ---'',
                                    ''Error GET '' @ BASE_URL @ ''?per_page=100: '' @ b]\<rparr>)
       \<and> cleanup_apps urlopen2 repr (app # rest) t =
           (Inl TypeError,
            t\<lparr>world := w2,
              sent := sent t @ [build_request ''GET'' (policies_url repr i) JNull],
              stdout := stdout t @
                [''Checking app: '' @ py_str repr nm @ '' ('' @ py_str repr dm @ '')'',
                 ''Error GET '' @ policies_url repr i @ '': '' @ b2]\<rparr>)"
proof -
  have "request_result urlopen0 m u d s0 = (Inl TypeError, s0')"
    using assms(1) by (simp add: request_result_def and_then_def lift_def)
  moreover have "enable_public_api_main urlopen repr s =
           (Inl TypeError,
            s\<lparr>world := w',
              sent := sent s @ [build_request ''GET'' (BASE_URL @ ''?per_page=100'') JNull],
              stdout := stdout s @ [''--- Enabling Public Access for api.raydoug.com ---'',
                                    ''Error GET '' @ BASE_URL @ ''?per_page=100: '' @ b]\<rparr>)"
    using assms(2)
    by (simp add: enable_public_api_main_def and_then_request_result and_then_request)
  moreover have "cleanup_apps urlopen2 repr (app # rest) t =
           (Inl TypeError,
            t\<lparr>world := w2,
              sent := sent t @ [build_request ''GET'' (policies_url repr i) JNull],
              stdout := stdout t @
                [''Checking app: '' @ py_str repr nm @ '' ('' @ py_str repr dm @ '')'',
                 ''Error GET '' @ policies_url repr i @ '': '' @ b2]\<rparr>)"
    using assms(3-6)
    by (simp add: cleanup_app_def and_then_assoc and_then_request_result and_then_request)
  ultimately show ?thesis by blast
qed

theorem null_listing_is_unguarded_witness:
  "request_result forbidden ''GET'' BASE_URL JNull (start ()) =
     (Inl TypeError,
      \<lparr>world = (), sent = [build_request ''GET'' BASE_URL JNull],
       stdout = [''Error GET '' @ BASE_URL @ '': forbidden'']\<rparr>)
   \<and> enable_public_api_main forbidden demo_repr (start ()) =
     (Inl TypeError,
      \<lparr>world = (), sent = [build_request ''GET'' (BASE_URL @ ''?per_page=100'') JNull],
       stdout = [''--- Enabling Public Access for api.raydoug.com ---'',
                 ''Error GET '' @ BASE_URL @ ''?per_page=100: forbidden'']\<rparr>)
   \<and> cleanup_apps forbidden demo_repr [app_json blog_app, app_json api_app] (start ()) =
     (Inl TypeError,
      \<lparr>world = (), sent = [build_request ''GET'' (BASE_URL @ ''/a1/policies'') JNull],
       stdout = [''Checking app: Blog (blog.raydoug.com)'',
                 ''Error GET '' @ BASE_URL @ ''/a1/policies: forbidden'']\<rparr>)"
  using null_listing_is_unguarded [of forbidden "''GET''" BASE_URL JNull "start ()"
      "\<lparr>world = (), sent = [build_request ''GET'' BASE_URL JNull],
        stdout = [''Error GET '' @ BASE_URL @ '': forbidden'']\<rparr>"
      forbidden "start ()" 403 "''forbidden''" "()" "app_json blog_app" "JStr ''Blog''"
      "JStr ''blog.raydoug.com''" "JStr ''a1''" forbidden "start ()" demo_repr 403
      "''forbidden''" "()" "[app_json api_app]"]
  by (simp add: forbidden_def start_def request_def build_request_def app_json_def
      blog_app_def policies_url_def py_str_def)

section \<open>The secondary branch of the cleanup\<close>

text \<open>
  C8: for a policy whose name is a str that is not "Macbook dual-stack Bypass" and contains
  "bypass" and "ip" once lowered, the body of the cleanup loop makes no request, prints
  nothing and leaves the state as it was.
\<close>

theorem secondary_branch_is_noop:
  assumes "subscript policy ''name'' = Inr (JStr n)"
    and "n \<noteq> bypass_name"
    and "str_contains ''bypass'' (map lower_char n)"
    and "str_contains ''ip'' (map lower_char n)"
  shows "cleanup_policy urlopen repr app policy s = (Inr (), s)"
  using assms by (simp add: cleanup_policy_def ret_def)

theorem secondary_branch_is_noop_witness:
  "cleanup_policy access_api demo_repr (app_json api_app)
     (policy_json \<lparr>p_id = ''p1'', p_name = ''Office IP bypass'', p_decision = ''bypass'',
                   p_include = JArr []\<rparr>) (start demo_server) =
     (Inr (), start demo_server)"
proof -
  have lowered: "str_contains ''bypass'' (map lower_char ''Office IP bypass'')"
    "str_contains ''ip'' (map lower_char ''Office IP bypass'')"
    by code_simp+
  have name: "subscript (policy_json \<lparr>p_id = ''p1'', p_name = ''Office IP bypass'',
      p_decision = ''bypass'', p_include = JArr []\<rparr>) ''name'' = Inr (JStr ''Office IP bypass'')"
    by (simp add: policy_json_def)
  have other: "''Office IP bypass'' \<noteq> bypass_name"
    by (simp add: bypass_name_def)
  show ?thesis
    by (rule secondary_branch_is_noop [OF name other lowered])
qed


section \<open>The procedures against the Access API of the specification\<close>

lemma py_str_JStr [simp]: "py_str repr (JStr s) = s"
  by (simp add: py_str_def)

lemma list_apps:
  "access_api srv (build_request ''GET'' (BASE_URL @ ''?per_page=100'') JNull) =
     (Returned (envelope (JArr (map app_json srv))), srv)"
  "access_api srv (build_request ''GET'' BASE_URL JNull) =
     (Returned (envelope (JArr (map app_json srv))), srv)"
  by (simp_all add: access_api_def build_request_def)

lemma find_app_by_path:
  "distinct (map a_id srv) \<Longrightarrow> a \<in> set srv \<Longrightarrow>
   find (\<lambda>b. BASE_URL @ ''/'' @ a_id a @ ''/policies'' = app_policies_path b) srv = Some a"
proof (induction srv)
  case Nil
  then show ?case by simp
next
  case (Cons b srv)
  show ?case
  proof (cases "a = b")
    case True
    then show ?thesis by (simp add: app_policies_path_def)
  next
    case False
    with Cons.prems have "a \<in> set srv" and "a_id b \<noteq> a_id a" by auto
    with Cons show ?thesis by (simp add: app_policies_path_def)
  qed
qed

lemma find_app_by_path_none:
  "aid \<notin> set (map a_id srv) \<Longrightarrow>
   find (\<lambda>b. BASE_URL @ ''/'' @ aid @ ''/policies'' = app_policies_path b) srv = None"
  by (induction srv) (auto simp: app_policies_path_def)

lemma list_policies:
  assumes "distinct (map a_id srv)" and "a \<in> set srv"
  shows "access_api srv (build_request ''GET'' (policies_url repr (JStr (a_id a))) JNull) =
     (Returned (envelope (JArr (map policy_json (a_policies a)))), srv)"
  using find_app_by_path [OF assms]
  by (simp add: access_api_def build_request_def policies_url_def)

lemma segment_eq:
  assumes "CHR ''/'' \<notin> set a" and "CHR ''/'' \<notin> set a'"
  shows "(a @ CHR ''/'' # x = a' @ CHR ''/'' # x') = (a = a' \<and> x = x')"
proof
  assume eq: "a @ CHR ''/'' # x = a' @ CHR ''/'' # x'"
  have "takeWhile (\<lambda>c. c \<noteq> CHR ''/'') (a @ CHR ''/'' # x) = a"
    using assms(1) by (induction a) auto
  moreover have "takeWhile (\<lambda>c. c \<noteq> CHR ''/'') (a' @ CHR ''/'' # x') = a'"
    using assms(2) by (induction a') auto
  ultimately have "a = a'" using eq by simp
  with eq show "a = a' \<and> x = x'" by simp
qed simp

lemma item_path_eq:
  assumes "CHR ''/'' \<notin> set aid" and "CHR ''/'' \<notin> set (a_id a)"
  shows "(BASE_URL @ ''/'' @ aid @ ''/policies/'' @ pid = item_path a p) =
         (aid = a_id a \<and> pid = p_id p)"
  using segment_eq [OF assms, of "''policies/'' @ pid" "''policies/'' @ p_id p"]
  by (simp add: item_path_def)

lemma find_SomeD: "find P xs = Some x \<Longrightarrow> P x \<and> x \<in> set xs"
  by (induction xs) (auto split: if_splits)

lemma find_item_Some:
  assumes "find_item u srv = Some (a, p)"
  shows "a \<in> set srv \<and> p \<in> set (a_policies a) \<and> u = item_path a p"
proof -
  from assms have "(a, p) \<in> set (concat (map (\<lambda>a. map (Pair a) (a_policies a)) srv))"
    and "u = item_path a p"
    by (auto simp: find_item_def dest!: find_SomeD)
  then show ?thesis by auto
qed

lemma find_item_None:
  assumes "find_item u srv = None" and "a \<in> set srv" and "p \<in> set (a_policies a)"
  shows "u \<noteq> item_path a p"
  using assms by (force simp: find_item_def find_None_iff)

lemma delete_policy_absent:
  assumes "\<forall>a\<in>set srv. a_id a = aid \<longrightarrow> (\<forall>p\<in>set (a_policies a). p_id p \<noteq> pid)"
  shows "delete_policy aid pid srv = srv"
proof -
  have "\<And>a. a \<in> set srv \<Longrightarrow> a_id a = aid \<Longrightarrow>
      filter (\<lambda>p. p_id p \<noteq> pid) (a_policies a) = a_policies a"
    using assms by (simp add: filter_id_conv)
  then show ?thesis
    by (simp add: delete_policy_def map_idI)
qed

lemma delete_on_server:
  assumes "slash_free srv" and "CHR ''/'' \<notin> set aid"
  shows "\<exists>res. access_api srv (build_request ''DELETE'' (policy_url repr (JStr aid) (JStr pid)) JNull) =
           (res, delete_policy aid pid srv) \<and> ((\<exists>j. res = Returned j) \<or> (\<exists>st b. res = Raised_HTTPError st b))"
proof (cases "find_item (BASE_URL @ ''/'' @ aid @ ''/policies/'' @ pid) srv")
  case None
  have "\<forall>a\<in>set srv. a_id a = aid \<longrightarrow> (\<forall>p\<in>set (a_policies a). p_id p \<noteq> pid)"
  proof (intro ballI impI)
    fix a p assume "a \<in> set srv" "a_id a = aid" "p \<in> set (a_policies a)"
    with find_item_None [OF None] show "p_id p \<noteq> pid"
      by (auto simp: item_path_def)
  qed
  then have "delete_policy aid pid srv = srv" by (rule delete_policy_absent)
  with None show ?thesis
    by (simp add: access_api_def build_request_def policy_url_def not_found_def)
next
  case (Some ap)
  obtain a p where ap: "ap = (a, p)" by (cases ap)
  from Some ap find_item_Some have in_srv: "a \<in> set srv"
    and eq: "BASE_URL @ ''/'' @ aid @ ''/policies/'' @ pid = item_path a p"
    by blast+
  from assms(1) in_srv have "CHR ''/'' \<notin> set (a_id a)"
    by (simp add: slash_free_def list_all_iff)
  from item_path_eq [OF assms(2) this, of pid p] eq have "a_id a = aid" "p_id p = pid"
    by blast+
  with Some ap show ?thesis
    by (simp add: access_api_def build_request_def policy_url_def)
qed

lemma slash_free_delete [simp]: "slash_free (delete_policy aid pid srv) = slash_free srv"
  by (induction srv) (simp_all add: slash_free_def delete_policy_def)

lemma remove_policies_Nil [simp]: "remove_policies aid [] srv = srv"
  by (simp add: remove_policies_def map_idI)

lemma remove_policies_Cons:
  "remove_policies aid (pid # pids) srv = remove_policies aid pids (delete_policy aid pid srv)"
  by (auto simp: remove_policies_def delete_policy_def conj_commute)

lemma policy_json_fields [simp]:
  "subscript (policy_json p) ''name'' = Inr (JStr (p_name p))"
  "subscript (policy_json p) ''id'' = Inr (JStr (p_id p))"
  by (simp_all add: policy_json_def)

lemma app_json_fields [simp]:
  "subscript (app_json a) ''name'' = Inr (JStr (a_name a))"
  "subscript (app_json a) ''id'' = Inr (JStr (a_id a))"
  "subscript (app_json a) ''domain'' = Inr (JStr (a_domain a))"
  by (simp_all add: app_json_def)

lemma cleanup_policy_on_server:
  assumes "slash_free (world s)" and "CHR ''/'' \<notin> set aid"
    and "subscript appj ''id'' = Inr (JStr aid)"
  shows "\<exists>s'. cleanup_policy access_api repr appj (policy_json p) s = (Inr (), s')
           \<and> world s' = (if named_bypass p then delete_policy aid (p_id p) (world s) else world s)
           \<and> sent s' = sent s @ (if named_bypass p then [delete_call aid p] else [])"
proof (cases "named_bypass p")
  case False
  then show ?thesis
    by (simp add: cleanup_policy_def named_bypass_def ret_def)
next
  case True
  from delete_on_server [OF assms(1,2), of repr "p_id p"]
  obtain res where res: "access_api (world s)
        (build_request ''DELETE'' (policy_url repr (JStr aid) (JStr (p_id p))) JNull) =
        (res, delete_policy aid (p_id p) (world s))"
    and kind: "(\<exists>j. res = Returned j) \<or> (\<exists>st b. res = Raised_HTTPError st b)"
    by blast
  from kind show ?thesis
  proof
    assume "\<exists>j. res = Returned j"
    then obtain j where "res = Returned j" ..
    with res True assms(3) show ?thesis
      by (simp add: cleanup_policy_def named_bypass_def and_then_request delete_call_def
          ret_def policy_url_def)
  next
    assume "\<exists>st b. res = Raised_HTTPError st b"
    then obtain st b where "res = Raised_HTTPError st b" by blast
    with res True assms(3) show ?thesis
      by (simp add: cleanup_policy_def named_bypass_def and_then_request delete_call_def
          ret_def policy_url_def)
  qed
qed

lemma cleanup_policies_on_server:
  assumes "slash_free (world s)" and "CHR ''/'' \<notin> set aid"
    and "subscript appj ''id'' = Inr (JStr aid)"
  shows "\<exists>s'. cleanup_policies access_api repr appj (map policy_json ps) s = (Inr (), s')
           \<and> world s' = remove_policies aid (map p_id (filter named_bypass ps)) (world s)
           \<and> sent s' = sent s @ map (delete_call aid) (filter named_bypass ps)"
  using assms(1)
proof (induction ps arbitrary: s)
  case Nil
  then show ?case by (simp add: ret_def)
next
  case (Cons p ps)
  from cleanup_policy_on_server [OF Cons.prems assms(2,3), of repr p]
  obtain s1 where step: "cleanup_policy access_api repr appj (policy_json p) s = (Inr (), s1)"
    and w1: "world s1 = (if named_bypass p then delete_policy aid (p_id p) (world s) else world s)"
    and r1: "sent s1 = sent s @ (if named_bypass p then [delete_call aid p] else [])"
    by blast
  from w1 Cons.prems have "slash_free (world s1)" by simp
  from Cons.IH [OF this]
  obtain s2 where rest: "cleanup_policies access_api repr appj (map policy_json ps) s1 = (Inr (), s2)"
    and w2: "world s2 = remove_policies aid (map p_id (filter named_bypass ps)) (world s1)"
    and r2: "sent s2 = sent s1 @ map (delete_call aid) (filter named_bypass ps)"
    by blast
  have "cleanup_policies access_api repr appj (map policy_json (p # ps)) s = (Inr (), s2)"
    using step rest by (simp add: and_then_Inr)
  moreover have "world s2 = remove_policies aid (map p_id (filter named_bypass (p # ps))) (world s)"
    using w1 w2 by (simp add: remove_policies_Cons)
  moreover have "sent s2 = sent s @ map (delete_call aid) (filter named_bypass (p # ps))"
    using r1 r2 by simp
  ultimately show ?case by blast
qed

lemma wf_server_slash_free: "wf_server srv \<Longrightarrow> slash_free srv"
  by (simp add: wf_server_def slash_free_def list_all_iff)

lemma wf_server_app:
  assumes "wf_server srv" and "a \<in> set srv"
  shows "CHR ''/'' \<notin> set (a_id a)" and "distinct (map p_id (a_policies a))"
  using assms by (simp_all add: wf_server_def list_all_iff)

lemma wf_server_same_id:
  assumes "wf_server srv" and "a \<in> set srv" and "b \<in> set srv" and "a_id b = a_id a"
  shows "b = a"
proof -
  from assms(1) have "inj_on a_id (set srv)"
    by (simp add: wf_server_def distinct_map)
  with assms(2-4) show ?thesis by (simp add: inj_on_def)
qed

lemma filter_named_by_id:
  assumes "distinct (map p_id ps)"
  shows "filter (\<lambda>p. p_id p \<notin> set (map p_id (filter named_bypass ps))) ps =
         filter (\<lambda>p. \<not> named_bypass p) ps"
proof (rule filter_cong [OF refl])
  fix p assume p: "p \<in> set ps"
  from assms have inj: "inj_on p_id (set ps)" by (simp add: distinct_map)
  show "(p_id p \<notin> set (map p_id (filter named_bypass ps))) = (\<not> named_bypass p)"
  proof
    assume "p_id p \<notin> set (map p_id (filter named_bypass ps))"
    with p show "\<not> named_bypass p" by auto
  next
    assume not_named: "\<not> named_bypass p"
    show "p_id p \<notin> set (map p_id (filter named_bypass ps))"
    proof
      assume "p_id p \<in> set (map p_id (filter named_bypass ps))"
      then obtain q where "q \<in> set ps" "named_bypass q" "p_id q = p_id p" by auto
      with inj p have "q = p" by (simp add: inj_on_def)
      with \<open>named_bypass q\<close> not_named show False by simp
    qed
  qed
qed

lemma remove_named_is_purge:
  assumes "wf_server srv" and "a \<in> set srv"
  shows "remove_policies (a_id a) (map p_id (filter named_bypass (a_policies a))) srv =
         purge_apps [a_id a] srv"
  unfolding remove_policies_def purge_apps_def
proof (rule map_cong [OF refl])
  fix b assume b: "b \<in> set srv"
  show "(if a_id b = a_id a
         then b\<lparr>a_policies := filter (\<lambda>p. p_id p \<notin> set (map p_id (filter named_bypass
                  (a_policies a)))) (a_policies b)\<rparr>
         else b) =
        (if a_id b \<in> set [a_id a]
         then b\<lparr>a_policies := filter (\<lambda>p. \<not> named_bypass p) (a_policies b)\<rparr> else b)"
  proof (cases "a_id b = a_id a")
    case True
    with assms b have "b = a" by (simp add: wf_server_same_id)
    with filter_named_by_id [OF wf_server_app(2) [OF assms]] show ?thesis
      by simp
  next
    case False
    then show ?thesis by simp
  qed
qed

lemma wf_server_purge_apps: "wf_server srv \<Longrightarrow> wf_server (purge_apps aids srv)"
proof -
  assume wf: "wf_server srv"
  have ids: "map a_id (purge_apps aids srv) = map a_id srv"
    by (simp add: purge_apps_def)
  have "list_all (\<lambda>a. CHR ''/'' \<notin> set (a_id a) \<and> distinct (map p_id (a_policies a)))
      (purge_apps aids srv)"
    using wf by (auto simp: wf_server_def purge_apps_def list_all_iff distinct_map_filter)
  with wf ids show ?thesis by (simp add: wf_server_def)
qed

lemma purge_apps_Cons: "purge_apps (aid # aids) srv = purge_apps aids (purge_apps [aid] srv)"
  by (auto simp: purge_apps_def)

lemma purge_apps_Nil [simp]: "purge_apps [] srv = srv"
  by (simp add: purge_apps_def)

lemma purge_apps_all: "purge_apps (map a_id srv) srv = purge srv"
  by (simp add: purge_apps_def purge_def)

lemma purge_apps_keeps:
  assumes "b \<in> set srv" and "a_id b \<notin> set aids"
  shows "b \<in> set (purge_apps aids srv)"
proof -
  let ?f = "\<lambda>a. if a_id a \<in> set aids
               then a\<lparr>a_policies := filter (\<lambda>p. \<not> named_bypass p) (a_policies a)\<rparr>
               else a"
  have "?f b = b"
    using assms(2) by simp
  moreover have "?f b \<in> ?f ` set srv"
    using assms(1) by (rule imageI)
  ultimately have "b \<in> ?f ` set srv" by simp
  then show ?thesis
    by (simp only: purge_apps_def set_map)
qed

lemma cleanup_app_on_server:
  assumes "wf_server (world s)" and "a \<in> set (world s)"
  shows "\<exists>s'. cleanup_app access_api repr (app_json a) s = (Inr (), s')
           \<and> world s' = purge_apps [a_id a] (world s)
           \<and> sent s' = sent s @ cleanup_calls a"
proof -
  let ?s1 = "s\<lparr>stdout := stdout s @ [''Checking app: '' @ a_name a @ '' ('' @ a_domain a @ '')''],
      sent := sent s @ [build_request ''GET'' (policies_url repr (JStr (a_id a))) JNull]\<rparr>"
  from assms have distinct_ids: "distinct (map a_id (world s))"
    by (simp add: wf_server_def)
  have eq: "cleanup_app access_api repr (app_json a) s =
      cleanup_policies access_api repr (app_json a) (map policy_json (a_policies a)) ?s1"
    by (simp add: cleanup_app_def and_then_request_result and_then_request
        list_policies [OF distinct_ids assms(2)] envelope_def)
  have sf: "slash_free (world ?s1)"
    using assms(1) by (simp add: wf_server_slash_free)
  from cleanup_policies_on_server [OF sf wf_server_app(1) [OF assms] app_json_fields(2),
      of repr "a_policies a"]
  obtain s' where
    "cleanup_policies access_api repr (app_json a) (map policy_json (a_policies a)) ?s1 =
       (Inr (), s')"
    and "world s' =
       remove_policies (a_id a) (map p_id (filter named_bypass (a_policies a))) (world ?s1)"
    and "sent s' = sent ?s1 @ map (delete_call (a_id a)) (filter named_bypass (a_policies a))"
    by blast
  with eq remove_named_is_purge [OF assms] show ?thesis
    by (simp add: cleanup_calls_def policies_url_def)
qed

lemma cleanup_apps_on_server:
  assumes "wf_server (world s)" and "set as \<subseteq> set (world s)" and "distinct (map a_id as)"
  shows "\<exists>s'. cleanup_apps access_api repr (map app_json as) s = (Inr (), s')
           \<and> world s' = purge_apps (map a_id as) (world s)
           \<and> sent s' = sent s @ concat (map cleanup_calls as)"
  using assms
proof (induction as arbitrary: s)
  case Nil
  then show ?case by (simp add: ret_def)
next
  case (Cons a as)
  from Cons.prems have a: "a \<in> set (world s)" by simp
  from cleanup_app_on_server [OF Cons.prems(1) a, of repr]
  obtain s1 where step: "cleanup_app access_api repr (app_json a) s = (Inr (), s1)"
    and w1: "world s1 = purge_apps [a_id a] (world s)"
    and r1: "sent s1 = sent s @ cleanup_calls a"
    by blast
  have wf1: "wf_server (world s1)"
    using w1 Cons.prems(1) by (simp add: wf_server_purge_apps)
  have sub1: "set as \<subseteq> set (world s1)"
  proof
    fix b assume b: "b \<in> set as"
    with Cons.prems(2,3) have "b \<in> set (world s)" and "a_id b \<notin> set [a_id a]"
      by (auto simp: image_iff)
    then show "b \<in> set (world s1)"
      unfolding w1 by (rule purge_apps_keeps)
  qed
  from Cons.prems(3) have dist1: "distinct (map a_id as)" by simp
  from Cons.IH [OF wf1 sub1 dist1]
  obtain s2 where rest: "cleanup_apps access_api repr (map app_json as) s1 = (Inr (), s2)"
    and w2: "world s2 = purge_apps (map a_id as) (world s1)"
    and r2: "sent s2 = sent s1 @ concat (map cleanup_calls as)"
    by blast
  have "cleanup_apps access_api repr (map app_json (a # as)) s = (Inr (), s2)"
    using step rest by (simp add: and_then_Inr)
  moreover have "world s2 = purge_apps (map a_id (a # as)) (world s)"
    using w1 w2 purge_apps_Cons [of "a_id a" "map a_id as" "world s"] by simp
  moreover have "sent s2 = sent s @ concat (map cleanup_calls (a # as))"
    using r1 r2 by simp
  ultimately show ?case by blast
qed

lemma phase2_on_server:
  assumes "wf_server (world s)"
  shows "\<exists>s'. fix_zero_trust_phase2 access_api repr s = (Inr (), s')
           \<and> world s' = purge (world s)
           \<and> sent s' = sent s @ build_request ''GET'' (BASE_URL @ ''?per_page=100'') JNull #
                 concat (map cleanup_calls (world s))"
proof -
  let ?s1 = "s\<lparr>stdout := stdout s @
        [''\<newline>--- 2. Cleaning up 'Macbook dual-stack Bypass' from all apps ---''],
      sent := sent s @ [build_request ''GET'' (BASE_URL @ ''?per_page=100'') JNull]\<rparr>"
  have eq: "fix_zero_trust_phase2 access_api repr s =
      cleanup_apps access_api repr (map app_json (world s)) ?s1"
    by (simp add: fix_zero_trust_phase2_def and_then_request_result and_then_request
        list_apps envelope_def)
  have "wf_server (world ?s1)" "set (world s) \<subseteq> set (world ?s1)" "distinct (map a_id (world s))"
    using assms by (simp_all add: wf_server_def)
  from cleanup_apps_on_server [OF this, of repr] eq show ?thesis
    by (simp add: purge_apps_all)
qed

lemma cleanup_policy_sent:
  assumes "subscript policy ''name'' = Inr (JStr n)"
    and "subscript app ''id'' = Inr aid"
    and "subscript policy ''id'' = Inr pid"
  shows "sent (snd (cleanup_policy urlopen repr app policy s)) =
           sent s @ (if n = bypass_name
                     then [build_request ''DELETE'' (policy_url repr aid pid) JNull] else [])"
  using assms
  by (simp add: cleanup_policy_def and_then_request ret_def Let_def
      split: prod.splits outcome.splits)

lemma delete_call_eq:
  assumes "CHR ''/'' \<notin> set aid" and "CHR ''/'' \<notin> set bid"
  shows "(delete_call aid p = delete_call bid q) = (aid = bid \<and> p_id p = p_id q)"
  using segment_eq [OF assms, of "''policies/'' @ p_id p" "''policies/'' @ p_id q"]
  by (simp add: delete_call_def build_request_def)

lemma delete_call_in_cleanup_calls:
  assumes "wf_server srv" and "a \<in> set srv" and "p \<in> set (a_policies a)"
  shows "(delete_call (a_id a) p \<in> set (concat (map cleanup_calls srv))) = named_bypass p"
proof
  assume "named_bypass p"
  with assms(2,3) show "delete_call (a_id a) p \<in> set (concat (map cleanup_calls srv))"
    by (auto simp: cleanup_calls_def)
next
  assume "delete_call (a_id a) p \<in> set (concat (map cleanup_calls srv))"
  then obtain b where b: "b \<in> set srv" and "delete_call (a_id a) p \<in> set (cleanup_calls b)"
    by auto
  then obtain q where q: "q \<in> set (a_policies b)" "named_bypass q"
    and eq: "delete_call (a_id a) p = delete_call (a_id b) q"
    by (auto simp: cleanup_calls_def delete_call_def build_request_def)
  from eq wf_server_app(1) [OF assms(1,2)] wf_server_app(1) [OF assms(1) b]
  have ids: "a_id a = a_id b" "p_id p = p_id q"
    by (simp_all add: delete_call_eq)
  with assms(1,2) b have "b = a" by (simp add: wf_server_same_id)
  from wf_server_app(2) [OF assms(1,2)] have "inj_on p_id (set (a_policies a))"
    by (simp add: distinct_map)
  with assms(3) q(1) ids(2) \<open>b = a\<close> have "q = p" by (simp add: inj_on_def)
  with q(2) show "named_bypass p" by simp
qed

text \<open>
  C5. For any world: the body of the cleanup loop, on a policy with a str name, sends one
  DELETE to that policy's path when the name is exactly "Macbook dual-stack Bypass" and
  sends nothing otherwise. Against the Access API of the specification, from a well-formed
  server state: the cleanup phase ends normally; for every application and every policy of
  it, the DELETE for that policy is among the requests sent if and only if the policy has
  that name; and afterwards the server holds every application with the policies of that
  name removed and all its other policies as they were.
\<close>

theorem cleanup_deletes_exactly_the_named:
  assumes "subscript policy ''name'' = Inr (JStr n)"
    and "subscript app ''id'' = Inr aid"
    and "subscript policy ''id'' = Inr pid"
    and "wf_server srv"
  shows "sent (snd (cleanup_policy urlopen repr app policy s)) =
           sent s @ (if n = bypass_name
                     then [build_request ''DELETE'' (policy_url repr aid pid) JNull] else [])
       \<and> fst (fix_zero_trust_phase2 access_api repr (start srv)) = Inr ()
       \<and> world (snd (fix_zero_trust_phase2 access_api repr (start srv))) = purge srv
       \<and> (\<forall>a\<in>set srv. \<forall>p\<in>set (a_policies a).
            (delete_call (a_id a) p \<in>
               set (sent (snd (fix_zero_trust_phase2 access_api repr (start srv))))) =
            (p_name p = bypass_name))"
proof -
  from phase2_on_server [of "start srv" repr] assms(4)
  obtain s' where run: "fix_zero_trust_phase2 access_api repr (start srv) = (Inr (), s')"
    and w: "world s' = purge srv"
    and r: "sent s' = build_request ''GET'' (BASE_URL @ ''?per_page=100'') JNull #
              concat (map cleanup_calls srv)"
    by (auto simp: start_def)
  have "\<forall>a\<in>set srv. \<forall>p\<in>set (a_policies a).
      (delete_call (a_id a) p \<in> set (sent s')) = (p_name p = bypass_name)"
  proof (intro ballI)
    fix a p assume ap: "a \<in> set srv" "p \<in> set (a_policies a)"
    have "delete_call (a_id a) p \<noteq> build_request ''GET'' (BASE_URL @ ''?per_page=100'') JNull"
      by (simp add: delete_call_def build_request_def)
    with delete_call_in_cleanup_calls [OF assms(4) ap] r
    show "(delete_call (a_id a) p \<in> set (sent s')) = (p_name p = bypass_name)"
      by (simp add: named_bypass_def)
  qed
  with run w cleanup_policy_sent [OF assms(1-3), of urlopen repr s] show ?thesis by simp
qed

theorem cleanup_deletes_exactly_the_named_witness:
  "sent (snd (cleanup_policy forbidden demo_repr (app_json blog_app)
       (policy_json \<lparr>p_id = ''p1'', p_name = ''Macbook dual-stack Bypass'',
          p_decision = ''bypass'', p_include = JArr []\<rparr>) (start ()))) =
     [build_request ''DELETE'' (BASE_URL @ ''/a1/policies/p1'') JNull]
   \<and> world (snd (fix_zero_trust_phase2 access_api demo_repr (start demo_server))) =
     [blog_app\<lparr>a_policies := [\<lparr>p_id = ''p2'', p_name = ''Staff'', p_decision = ''allow'',
          p_include = JArr [JObj [(''everyone'', JObj [])]]\<rparr>]\<rparr>, api_app]"
  using cleanup_deletes_exactly_the_named [of
      "policy_json \<lparr>p_id = ''p1'', p_name = ''Macbook dual-stack Bypass'',
          p_decision = ''bypass'', p_include = JArr []\<rparr>" "''Macbook dual-stack Bypass''"
      "app_json blog_app" "JStr ''a1''" "JStr ''p1''" demo_server forbidden demo_repr "start ()"]
  by (simp add: wf_server_def demo_server_def blog_app_def api_app_def purge_def
      named_bypass_def bypass_name_def policy_url_def start_def app_json_def policy_json_def)

section \<open>The public-access enabler against the Access API\<close>

lemma first_match_apps:
  "first_match ''domain'' (JStr d) (map app_json srv) =
     Inr (case find (\<lambda>a. a_domain a = d) srv of None \<Rightarrow> JNull | Some a \<Rightarrow> app_json a)"
  by (induction srv) simp_all

lemma first_match_policies:
  "first_match ''name'' (JStr n) (map policy_json ps) =
     Inr (case find (\<lambda>p. p_name p = n) ps of None \<Rightarrow> JNull | Some p \<Rightarrow> policy_json p)"
  by (induction ps) simp_all

lemma any_match_policies:
  "any_match_list ''name'' (JStr n) (map policy_json ps) = Inr (n \<in> set (map p_name ps))"
  by (induction ps) auto

lemma subscript_all_policies:
  "subscript_all ''name'' (map policy_json ps) = Inr (map (\<lambda>p. JStr (p_name p)) ps)"
  by (induction ps) simp_all

lemma truthy_json [simp]: "truthy (app_json a)" "truthy (policy_json p)"
  by (simp_all add: app_json_def policy_json_def)

lemma find_item_present:
  assumes "slash_free srv" and "a \<in> set srv" and "p \<in> set (a_policies a)"
  shows "\<exists>a' p'. find_item (item_path a p) srv = Some (a', p') \<and> a_id a' = a_id a \<and> p_id p' = p_id p"
proof (cases "find_item (item_path a p) srv")
  case None
  from find_item_None [OF None assms(2,3)] show ?thesis by simp
next
  case (Some ap)
  obtain a' p' where ap: "ap = (a', p')" by (cases ap)
  from Some ap find_item_Some have in_srv: "a' \<in> set srv"
    and eq: "item_path a p = item_path a' p'"
    by blast+
  from assms(1,2) in_srv have "CHR ''/'' \<notin> set (a_id a)" "CHR ''/'' \<notin> set (a_id a')"
    by (simp_all add: slash_free_def list_all_iff)
  from item_path_eq [OF this, of "p_id p" p'] eq have "a_id a' = a_id a" "p_id p' = p_id p"
    by (simp_all add: item_path_def)
  with Some ap show ?thesis by simp
qed

lemma public_access_payload [simp]:
  "policy_of_payload i public_access_policy = Some (public_access i)"
  by (simp add: policy_of_payload_def public_access_policy_def public_access_def str_field_def
      any_field_def)

lemma truthy_payloads [simp]: "truthy public_access_policy"
  by (simp add: public_access_policy_def)

lemma put_on_server:
  assumes "slash_free srv" and "a \<in> set srv" and "p \<in> set (a_policies a)"
  shows "access_api srv (build_request ''PUT''
            (policy_url repr (JStr (a_id a)) (JStr (p_id p))) public_access_policy) =
          (Returned (envelope (policy_json (public_access (p_id p)))),
           replace_policy (a_id a) (p_id p) (public_access (p_id p)) srv)"
proof -
  from find_item_present [OF assms]
  obtain a' p' where "find_item (item_path a p) srv = Some (a', p')"
    and "a_id a' = a_id a" and "p_id p' = p_id p"
    by blast
  then show ?thesis
    by (simp add: access_api_def build_request_def policy_url_def item_path_def)
qed

lemma post_policy_on_server:
  assumes "distinct (map a_id srv)" and "a \<in> set srv"
    and "policy_of_payload (fresh_id srv) payload = Some new" and "truthy payload"
  shows "access_api srv (build_request ''POST''
            (policies_url repr (JStr (a_id a))) payload) =
          (Returned (envelope (policy_json new)), add_policy (a_id a) new srv)"
  using find_app_by_path [OF assms(1,2)] assms(3,4)
  by (simp add: access_api_def build_request_def policies_url_def)

lemma enabler_on_server:
  assumes "wf_server (world s)"
  shows "\<exists>s'. enable_public_api_main access_api repr s = (Inr (), s')
           \<and> world s' = enabled (world s)"
proof (cases "find (\<lambda>a. a_domain a = ''api.raydoug.com'') (world s)")
  case None
  then show ?thesis
    by (simp add: enable_public_api_main_def and_then_request_result and_then_request
        list_apps envelope_def next_match_def first_match_apps print_def enabled_def)
next
  case (Some a)
  then have a: "a \<in> set (world s)" by (simp add: find_SomeD)
  from assms have d: "distinct (map a_id (world s))" by (simp add: wf_server_def)
  have sf: "slash_free (world s)" using assms by (rule wf_server_slash_free)
  show ?thesis
  proof (cases "find (\<lambda>p. p_name p = policy_name) (a_policies a)")
    case None
    with Some show ?thesis
      by (simp add: enable_public_api_main_def and_then_request_result and_then_request
        list_apps envelope_def next_match_def first_match_apps print_def enabled_def
        list_policies [OF d a] names_of_def subscript_all_policies first_match_policies
        upsert_public_access_def and_then_assoc
        post_policy_on_server [OF d a public_access_payload truthy_payloads])
  next
    case (Some p)
    then have p: "p \<in> set (a_policies a)" by (simp add: find_SomeD)
    from Some \<open>find (\<lambda>a. a_domain a = ''api.raydoug.com'') (world s) = Some a\<close> show ?thesis
      by (simp add: enable_public_api_main_def and_then_request_result and_then_request
        list_apps envelope_def next_match_def first_match_apps print_def enabled_def
        list_policies [OF d a] names_of_def subscript_all_policies first_match_policies
        upsert_public_access_def and_then_assoc put_on_server [OF sf a p])
  qed
qed

lemma foldr_max_bound: "i \<in> set ids \<Longrightarrow> length i \<le> foldr (\<lambda>i. max (length i)) ids 0"
  by (induction ids) auto

lemma fresh_id_not_used: "fresh_id srv \<notin> set (used_ids srv)"
proof
  assume "fresh_id srv \<in> set (used_ids srv)"
  from foldr_max_bound [OF this] show False
    by (simp add: fresh_id_def)
qed

lemma fresh_id_slash_free: "CHR ''/'' \<notin> set (fresh_id srv)"
  by (simp add: fresh_id_def)

lemma policy_id_used:
  "a \<in> set srv \<Longrightarrow> p \<in> set (a_policies a) \<Longrightarrow> p_id p \<in> set (used_ids srv)"
  by (auto simp: used_ids_def)

lemma app_id_used: "a \<in> set srv \<Longrightarrow> a_id a \<in> set (used_ids srv)"
  by (auto simp: used_ids_def)

lemma wf_add_policy:
  assumes "wf_server srv" and "p_id new \<notin> set (used_ids srv)"
  shows "wf_server (add_policy aid new srv)"
proof -
  have ids: "map a_id (add_policy aid new srv) = map a_id srv"
    by (simp add: add_policy_def)
  have "list_all (\<lambda>a. CHR ''/'' \<notin> set (a_id a) \<and> distinct (map p_id (a_policies a)))
      (add_policy aid new srv)"
    using assms policy_id_used [of _ srv]
    by (auto simp: wf_server_def add_policy_def list_all_iff)
  with assms(1) ids show ?thesis by (simp add: wf_server_def)
qed

lemma set_fields_id [simp]: "p_id (set_fields new p) = p_id p"
  by (simp add: set_fields_def)

lemma wf_replace_policy:
  assumes "wf_server srv"
  shows "wf_server (replace_policy aid pid new srv)"
proof -
  have ids: "map a_id (replace_policy aid pid new srv) = map a_id srv"
    by (simp add: replace_policy_def)
  have pids: "\<And>ps. map p_id (map (\<lambda>p. if p_id p = pid then set_fields new p else p) ps) =
      map p_id ps"
    by simp
  have "list_all (\<lambda>a. CHR ''/'' \<notin> set (a_id a) \<and> distinct (map p_id (a_policies a)))
      (replace_policy aid pid new srv)"
    using assms
    by (auto simp: wf_server_def replace_policy_def list_all_iff pids simp del: map_map)
  with assms ids show ?thesis by (simp add: wf_server_def)
qed

lemma wf_enabled: "wf_server srv \<Longrightarrow> wf_server (enabled srv)"
  by (simp add: enabled_def wf_add_policy wf_replace_policy public_access_def fresh_id_not_used
      split: option.splits)

lemma find_map_same:
  assumes "\<And>x. P (f x) = P x"
  shows "find P (map f xs) = map_option f (find P xs)"
  by (induction xs) (simp_all add: assms)

lemma find_append:
  "find P (xs @ ys) = (case find P xs of None \<Rightarrow> find P ys | Some x \<Rightarrow> Some x)"
  by (induction xs) simp_all

lemma find_replaced:
  assumes "distinct (map p_id ps)" and "find (\<lambda>p. p_name p = n) ps = Some p"
    and "p_name new = n"
  shows "find (\<lambda>p. p_name p = n)
           (map (\<lambda>q. if p_id q = p_id p then set_fields new q else q) ps) =
         Some (set_fields new p)"
  using assms(1,2)
proof (induction ps)
  case Nil
  then show ?case by simp
next
  case (Cons q ps)
  show ?case
  proof (cases "p_name q = n")
    case True
    with Cons.prems(2) have "q = p" by simp
    with assms(3) show ?thesis by (simp add: set_fields_def)
  next
    case False
    with Cons.prems(2) have found: "find (\<lambda>p. p_name p = n) ps = Some p" by simp
    then have "p \<in> set ps" by (simp add: find_SomeD)
    with Cons.prems(1) have "p_id q \<noteq> p_id p" by auto
    with False Cons.IH found Cons.prems(1) show ?thesis by simp
  qed
qed

lemma public_access_fields [simp]:
  "p_id (public_access i) = i"
  "p_name (public_access i) = policy_name"
  by (simp_all add: public_access_def)

lemma set_fields_public_access [simp]:
  "set_fields (public_access i) p = public_access (p_id p)"
  by (simp add: set_fields_def public_access_def)

lemma replace_policy_twice:
  "replace_policy aid pid (public_access i) (replace_policy aid pid (public_access i) srv) =
   replace_policy aid pid (public_access i) srv"
proof -
  have inner: "\<And>ps. map (\<lambda>p. if p_id p = pid then public_access (p_id p) else p)
        (map (\<lambda>p. if p_id p = pid then public_access (p_id p) else p) ps) =
      map (\<lambda>p. if p_id p = pid then public_access (p_id p) else p) ps"
    by (simp add: public_access_def)
  show ?thesis
    unfolding replace_policy_def set_fields_public_access map_map
    by (rule map_cong [OF refl]) (simp add: inner del: map_map)
qed

lemma replace_policy_noop:
  assumes "\<forall>b\<in>set srv. a_id b = aid \<longrightarrow>
             (\<forall>q\<in>set (a_policies b). p_id q = pid \<longrightarrow> set_fields new q = q)"
  shows "replace_policy aid pid new srv = srv"
proof -
  have "\<And>b. b \<in> set srv \<Longrightarrow> a_id b = aid \<Longrightarrow>
      map (\<lambda>p. if p_id p = pid then set_fields new p else p) (a_policies b) = a_policies b"
    using assms by (simp add: map_idI)
  then show ?thesis
    by (simp add: replace_policy_def map_idI)
qed

lemma enabled_facts:
  assumes "wf_server srv" and "find (\<lambda>a. a_domain a = ''api.raydoug.com'') srv = Some a"
  shows "\<exists>a' i. find (\<lambda>a. a_domain a = ''api.raydoug.com'') (enabled srv) = Some a'
           \<and> a_id a' = a_id a
           \<and> find (\<lambda>p. p_name p = policy_name) (a_policies a') = Some (public_access i)
           \<and> enabled (enabled srv) = enabled srv"
proof (cases "find (\<lambda>p. p_name p = policy_name) (a_policies a)")
  case None
  let ?N = "public_access (fresh_id srv)"
  let ?h = "\<lambda>b. if a_id b = a_id a then b\<lparr>a_policies := a_policies b @ [?N]\<rparr> else b"
  have en: "enabled srv = map ?h srv"
    using assms(2) None by (simp add: enabled_def add_policy_def)
  have "find (\<lambda>a. a_domain a = ''api.raydoug.com'') (map ?h srv) =
      map_option ?h (find (\<lambda>a. a_domain a = ''api.raydoug.com'') srv)"
    by (rule find_map_same) simp
  with assms(2) have app': "find (\<lambda>a. a_domain a = ''api.raydoug.com'') (enabled srv) =
      Some (a\<lparr>a_policies := a_policies a @ [?N]\<rparr>)"
    by (simp add: en)
  have pol': "find (\<lambda>p. p_name p = policy_name) (a_policies a @ [?N]) = Some ?N"
    using None by (simp add: find_append public_access_def)
  have "replace_policy (a_id a) (fresh_id srv) ?N (map ?h srv) = map ?h srv"
  proof (rule replace_policy_noop, intro ballI impI)
    fix b' q assume b': "b' \<in> set (map ?h srv)" and "a_id b' = a_id a"
      and q: "q \<in> set (a_policies b')" and fresh: "p_id q = fresh_id srv"
    from b' obtain b where b: "b \<in> set srv" and "b' = ?h b" by auto
    with \<open>a_id b' = a_id a\<close> have "a_policies b' = a_policies b @ [?N]"
      by (simp split: if_splits)
    with q have "q \<in> set (a_policies b) \<or> q = ?N" by auto
    then show "set_fields ?N q = q"
    proof
      assume "q \<in> set (a_policies b)"
      from policy_id_used [OF b this] fresh fresh_id_not_used [of srv] show ?thesis by simp
    next
      assume "q = ?N"
      then show ?thesis by (simp add: set_fields_def public_access_def)
    qed
  qed
  then have "enabled (enabled srv) = enabled srv"
    using app' pol' by (simp add: enabled_def en [symmetric] public_access_def)
  with app' pol' show ?thesis by auto
next
  case (Some p)
  let ?N = "public_access (p_id p)"
  let ?g = "\<lambda>q. if p_id q = p_id p then set_fields ?N q else q"
  let ?f = "\<lambda>b. if a_id b = a_id a then b\<lparr>a_policies := map ?g (a_policies b)\<rparr> else b"
  from assms(2) have a: "a \<in> set srv" by (simp add: find_SomeD)
  have en: "enabled srv = map ?f srv"
    using assms(2) Some by (simp add: enabled_def replace_policy_def)
  have "find (\<lambda>a. a_domain a = ''api.raydoug.com'') (map ?f srv) =
      map_option ?f (find (\<lambda>a. a_domain a = ''api.raydoug.com'') srv)"
    by (rule find_map_same) simp
  with assms(2) have app': "find (\<lambda>a. a_domain a = ''api.raydoug.com'') (enabled srv) =
      Some (a\<lparr>a_policies := map ?g (a_policies a)\<rparr>)"
    by (simp add: en)
  have pol': "find (\<lambda>p. p_name p = policy_name) (map ?g (a_policies a)) =
      Some (set_fields ?N p)"
    by (rule find_replaced [OF wf_server_app(2) [OF assms(1) a] Some])
      (simp add: public_access_def)
  have "enabled (enabled srv) = replace_policy (a_id a) (p_id p) ?N (enabled srv)"
    using app' pol' by (simp add: enabled_def [of "enabled srv"])
  also have "\<dots> = enabled srv"
    using assms(2) Some by (simp add: enabled_def replace_policy_twice)
  finally show ?thesis
    using app' pol' by auto
qed

text \<open>
  C2. Against the Access API of the specification, from a well-formed server state that
  holds an application with the domain \<^verbatim>\<open>api.raydoug.com\<close>: a run of the enabler ends
  normally and leaves, in an application with that domain, a policy named "Public Access"
  with decision "bypass" and inclusion "everyone"; a second run, started on the state the
  first one left, ends normally and leaves that state as it is.
\<close>

theorem public_access_enabler_idempotent:
  assumes "wf_server srv" and "\<exists>a\<in>set srv. a_domain a = ''api.raydoug.com''"
  shows "fst (enable_public_api_main access_api repr (start srv)) = Inr ()
       \<and> (\<exists>a\<in>set (world (snd (enable_public_api_main access_api repr (start srv)))).
            a_domain a = ''api.raydoug.com'' \<and>
            (\<exists>p\<in>set (a_policies a).
               p_name p = ''Public Access'' \<and> p_decision p = ''bypass'' \<and>
               p_include p = JArr [JObj [(''everyone'', JObj [])]]))
       \<and> fst (enable_public_api_main access_api repr
              (start (world (snd (enable_public_api_main access_api repr (start srv)))))) =
           Inr ()
       \<and> world (snd (enable_public_api_main access_api repr
              (start (world (snd (enable_public_api_main access_api repr (start srv))))))) =
           world (snd (enable_public_api_main access_api repr (start srv)))"
proof -
  from assms(2) obtain a where a: "find (\<lambda>a. a_domain a = ''api.raydoug.com'') srv = Some a"
    by (cases "find (\<lambda>a. a_domain a = ''api.raydoug.com'') srv") (auto simp: find_None_iff)
  from enabler_on_server [of "start srv" repr] assms(1)
  obtain s1 where run1: "enable_public_api_main access_api repr (start srv) = (Inr (), s1)"
    and w1: "world s1 = enabled srv"
    by (auto simp: start_def)
  from enabled_facts [OF assms(1) a]
  obtain a' i where a': "find (\<lambda>a. a_domain a = ''api.raydoug.com'') (enabled srv) = Some a'"
    and p': "find (\<lambda>p. p_name p = policy_name) (a_policies a') = Some (public_access i)"
    and idem: "enabled (enabled srv) = enabled srv"
    by blast
  from find_SomeD [OF a'] have "a' \<in> set (enabled srv)" "a_domain a' = ''api.raydoug.com''"
    by blast+
  moreover from find_SomeD [OF p'] have "public_access i \<in> set (a_policies a')"
    by blast
  ultimately have has: "\<exists>a\<in>set (enabled srv). a_domain a = ''api.raydoug.com'' \<and>
      (\<exists>p\<in>set (a_policies a).
         p_name p = ''Public Access'' \<and> p_decision p = ''bypass'' \<and>
         p_include p = JArr [JObj [(''everyone'', JObj [])]])"
    by (intro bexI [of _ a'] conjI bexI [of _ "public_access i"])
      (simp_all add: public_access_def policy_name_def)
  from enabler_on_server [of "start (enabled srv)" repr] wf_enabled [OF assms(1)]
  obtain s2 where run2:
    "enable_public_api_main access_api repr (start (enabled srv)) = (Inr (), s2)"
    and w2: "world s2 = enabled (enabled srv)"
    by (auto simp: start_def)
  from run1 w1 run2 w2 idem has show ?thesis by simp
qed

theorem public_access_enabler_idempotent_witness:
  "world (snd (enable_public_api_main access_api demo_repr (start demo_server))) =
     [blog_app,
      api_app\<lparr>a_policies :=
        [\<lparr>p_id = ''p1'', p_name = ''Office IP bypass'', p_decision = ''bypass'',
          p_include = JArr []\<rparr>,
         \<lparr>p_id = ''p3'', p_name = ''Public Access'', p_decision = ''bypass'',
          p_include = JArr [JObj [(''everyone'', JObj [])]]\<rparr>,
         \<lparr>p_id = ''p4'', p_name = ''Public Access'', p_decision = ''allow'',
          p_include = JArr []\<rparr>]\<rparr>]
   \<and> world (snd (enable_public_api_main access_api demo_repr
          (start (world (snd (enable_public_api_main access_api demo_repr
             (start demo_server))))))) =
     world (snd (enable_public_api_main access_api demo_repr (start demo_server)))"
proof -
  have wf: "wf_server demo_server"
    by (simp add: wf_server_def demo_server_def blog_app_def api_app_def)
  have ex: "\<exists>a\<in>set demo_server. a_domain a = ''api.raydoug.com''"
    by (simp add: demo_server_def blog_app_def api_app_def)
  from enabler_on_server [of "start demo_server" demo_repr] wf
  have "world (snd (enable_public_api_main access_api demo_repr (start demo_server))) =
      enabled demo_server"
    by (auto simp: start_def)
  moreover have "enabled demo_server = [blog_app,
      api_app\<lparr>a_policies :=
        [\<lparr>p_id = ''p1'', p_name = ''Office IP bypass'', p_decision = ''bypass'',
          p_include = JArr []\<rparr>,
         \<lparr>p_id = ''p3'', p_name = ''Public Access'', p_decision = ''bypass'',
          p_include = JArr [JObj [(''everyone'', JObj [])]]\<rparr>,
         \<lparr>p_id = ''p4'', p_name = ''Public Access'', p_decision = ''allow'',
          p_include = JArr []\<rparr>]\<rparr>]"
    by (simp add: enabled_def demo_server_def blog_app_def api_app_def replace_policy_def
        set_fields_def public_access_def policy_name_def)
  ultimately show ?thesis
    using public_access_enabler_idempotent [OF wf ex, of demo_repr] by simp
qed

section \<open>The zero-trust fixer: creating only what is absent\<close>

lemma payloads [simp]:
  "app_of_payload i studio_app_payload = Some (studio_app i)"
  "policy_of_payload i allow_admins_policy = Some (allow_admins i)"
  "policy_of_payload i allow_service_policy = Some (allow_service i)"
  "truthy studio_app_payload" "truthy allow_admins_policy" "truthy allow_service_policy"
  by (simp_all add: app_of_payload_def policy_of_payload_def studio_app_payload_def
      allow_admins_policy_def allow_service_policy_def studio_app_def allow_admins_def
      allow_service_def str_field_def any_field_def)

lemma post_app_on_server:
  "access_api srv (build_request ''POST'' BASE_URL studio_app_payload) =
     (Returned (envelope (app_json (studio_app (fresh_id srv)))), srv @ [studio_app (fresh_id srv)])"
  by (simp add: access_api_def build_request_def)

lemma has_studio_find:
  "has_studio srv = (find (\<lambda>a. a_domain a = ''studio.raydoug.com'') srv \<noteq> None)"
  by (auto simp: has_studio_def find_None_iff list_ex_iff)

lemma wf_with_studio: "wf_server srv \<Longrightarrow> wf_server (with_studio srv)"
  using fresh_id_not_used [of srv] fresh_id_slash_free [of srv]
  by (auto simp: with_studio_def wf_server_def studio_app_def used_ids_def)

lemma studio_of_in_with_studio: "studio_of srv \<in> set (with_studio srv)"
  by (auto simp: studio_of_def with_studio_def has_studio_find dest: find_SomeD
      split: option.splits)

lemma any_match_policies_json:
  "any_match ''name'' (JStr n) (JArr (map policy_json ps)) = Inr (n \<in> set (map p_name ps))"
  by (simp add: any_match_def any_match_policies)

lemma ensure_policy_on_server:
  assumes "distinct (map a_id (world s))" and "b \<in> set (world s)"
    and "policy_of_payload (fresh_id (world s)) payload = Some (mk (fresh_id (world s)))"
    and "truthy payload"
  shows "\<exists>s'. ensure_policy access_api repr (JStr (a_id b)) (JArr (map policy_json (a_policies a)))
             name payload s = (Inr (), s')
           \<and> world s' = (if has_policy name a then world s
                          else add_policy (a_id b) (mk (fresh_id (world s))) (world s))
           \<and> sent s' = sent s @ (if has_policy name a then []
                          else [build_request ''POST'' (app_policies_path b) payload])"
proof (cases "has_policy name a")
  case True
  then show ?thesis
    by (simp add: ensure_policy_def any_match_policies_json has_policy_def ret_def)
next
  case False
  let ?s1 = "s\<lparr>stdout := stdout s @ [''Adding '' @ apostrophe @ name @ apostrophe @ '' policy...'']\<rparr>"
  have "access_api (world ?s1) (build_request ''POST'' (policies_url repr (JStr (a_id b))) payload) =
      (Returned (envelope (policy_json (mk (fresh_id (world s))))),
       add_policy (a_id b) (mk (fresh_id (world s))) (world s))"
    using post_policy_on_server [OF assms(1,2,3,4), of repr] by simp
  with False show ?thesis
    by (simp add: ensure_policy_def any_match_policies_json has_policy_def and_then_request
        ret_def policies_url_def app_policies_path_def)
qed

lemma phase1_prefix:
  assumes "wf_server (world s)"
  shows "\<exists>s2. fix_zero_trust_phase1 access_api repr s =
           and_then (ensure_policy access_api repr (JStr (a_id (studio_of (world s))))
                       (JArr (map policy_json (a_policies (studio_of (world s)))))
                       ''Allow Admins'' allow_admins_policy)
             (\<lambda>_. ensure_policy access_api repr (JStr (a_id (studio_of (world s))))
                       (JArr (map policy_json (a_policies (studio_of (world s)))))
                       ''Allow Service'' allow_service_policy) s2
         \<and> world s2 = with_studio (world s)
         \<and> sent s2 = sent s @ build_request ''GET'' BASE_URL JNull #
             (if has_studio (world s) then []
              else [build_request ''POST'' BASE_URL studio_app_payload]) @
             [build_request ''GET'' (app_policies_path (studio_of (world s))) JNull]"
proof (cases "find (\<lambda>a. a_domain a = ''studio.raydoug.com'') (world s)")
  case None
  let ?A = "studio_app (fresh_id (world s))"
  have hs: "\<not> has_studio (world s)" and so: "studio_of (world s) = ?A"
    and ws: "with_studio (world s) = world s @ [?A]"
    using None by (simp_all add: has_studio_find studio_of_def with_studio_def)
  from wf_with_studio [OF assms] ws have d: "distinct (map a_id (world s @ [?A]))"
    by (simp add: wf_server_def)
  have A: "?A \<in> set (world s @ [?A])" by simp
  have pol: "a_policies ?A = []" by (simp add: studio_app_def)
  show ?thesis
    unfolding so ws
    apply (simp add: fix_zero_trust_phase1_def and_then_request_result and_then_request
        list_apps envelope_def next_match_def first_match_apps None ensure_studio_app_def
        and_then_assoc post_app_on_server list_policies [OF d A] pol hs)
    apply (intro exI conjI)
      apply (rule refl)
     apply (simp_all add: policies_url_def app_policies_path_def)
    done
next
  case (Some a)
  have hs: "has_studio (world s)" and so: "studio_of (world s) = a"
    and ws: "with_studio (world s) = world s"
    using Some by (simp_all add: has_studio_find studio_of_def with_studio_def)
  from assms have d: "distinct (map a_id (world s))" by (simp add: wf_server_def)
  from Some have a: "a \<in> set (world s)" by (simp add: find_SomeD)
  show ?thesis
    unfolding so ws
    apply (simp add: fix_zero_trust_phase1_def and_then_request_result and_then_request
        list_apps envelope_def next_match_def first_match_apps Some ensure_studio_app_def
        and_then_assoc list_policies [OF d a] hs)
    apply (intro exI conjI)
      apply (rule refl)
     apply (simp_all add: policies_url_def app_policies_path_def)
    done
qed

lemma add_policy_ids [simp]: "map a_id (add_policy aid p srv) = map a_id srv"
  by (simp add: add_policy_def)

lemma with_policy_ids [simp]: "map a_id (with_policy n mk a srv) = map a_id srv"
  by (simp add: with_policy_def)

lemma wf_with_policy:
  assumes "wf_server srv" and "\<And>i. p_id (mk i) = i"
  shows "wf_server (with_policy n mk a srv)"
  using assms fresh_id_not_used [of srv] by (simp add: with_policy_def wf_add_policy)

lemma mk_ids [simp]: "p_id (allow_admins i) = i" "p_id (allow_service i) = i"
  by (simp_all add: allow_admins_def allow_service_def)

lemma mk_names [simp]:
  "p_name (allow_admins i) = ''Allow Admins''" "p_name (allow_service i) = ''Allow Service''"
  by (simp_all add: allow_admins_def allow_service_def)

lemma wf_provisioned: "wf_server srv \<Longrightarrow> wf_server (provisioned srv)"
  by (simp add: provisioned_def wf_with_policy wf_with_studio)

lemma phase1_on_server:
  assumes "wf_server (world s)"
  shows "\<exists>s'. fix_zero_trust_phase1 access_api repr s = (Inr (), s')
           \<and> world s' = provisioned (world s)
           \<and> sent s' = sent s @ phase1_calls (world s)"
proof -
  let ?A = "studio_of (world s)"
  from phase1_prefix [OF assms, of repr]
  obtain s2 where run: "fix_zero_trust_phase1 access_api repr s =
           and_then (ensure_policy access_api repr (JStr (a_id ?A))
                       (JArr (map policy_json (a_policies ?A)))
                       ''Allow Admins'' allow_admins_policy)
             (\<lambda>_. ensure_policy access_api repr (JStr (a_id ?A))
                       (JArr (map policy_json (a_policies ?A)))
                       ''Allow Service'' allow_service_policy) s2"
    and w2: "world s2 = with_studio (world s)"
    and r2: "sent s2 = sent s @ build_request ''GET'' BASE_URL JNull #
             (if has_studio (world s) then []
              else [build_request ''POST'' BASE_URL studio_app_payload]) @
             [build_request ''GET'' (app_policies_path ?A) JNull]"
    by blast
  have d2: "distinct (map a_id (world s2))"
    using wf_with_studio [OF assms] w2 by (simp add: wf_server_def)
  have A2: "?A \<in> set (world s2)"
    using studio_of_in_with_studio w2 by simp
  from ensure_policy_on_server [OF d2 A2, of allow_admins_policy allow_admins repr ?A
      "''Allow Admins''"]
  obtain s3 where step3: "ensure_policy access_api repr (JStr (a_id ?A))
        (JArr (map policy_json (a_policies ?A))) ''Allow Admins'' allow_admins_policy s2 =
        (Inr (), s3)"
    and w3: "world s3 = with_policy ''Allow Admins'' allow_admins ?A (world s2)"
    and r3: "sent s3 = sent s2 @ (if has_policy ''Allow Admins'' ?A then []
               else [build_request ''POST'' (app_policies_path ?A) allow_admins_policy])"
    by (auto simp: with_policy_def)
  have d3: "distinct (map a_id (world s3))"
    using d2 w3 by simp
  have "a_id ?A \<in> set (map a_id (world s3))"
    using A2 w3 by simp
  then obtain b where b: "b \<in> set (world s3)" and bid: "a_id b = a_id ?A"
    by auto
  from ensure_policy_on_server [OF d3 b, of allow_service_policy allow_service repr ?A
      "''Allow Service''"] bid
  obtain s4 where step4: "ensure_policy access_api repr (JStr (a_id ?A))
        (JArr (map policy_json (a_policies ?A))) ''Allow Service'' allow_service_policy s3 =
        (Inr (), s4)"
    and w4: "world s4 = with_policy ''Allow Service'' allow_service ?A (world s3)"
    and r4: "sent s4 = sent s3 @ (if has_policy ''Allow Service'' ?A then []
               else [build_request ''POST'' (app_policies_path ?A) allow_service_policy])"
    by (auto simp: with_policy_def app_policies_path_def)
  have "fix_zero_trust_phase1 access_api repr s = (Inr (), s4)"
    using run step3 step4 by (simp add: and_then_Inr)
  moreover have "world s4 = provisioned (world s)"
    using w2 w3 w4 by (simp add: provisioned_def)
  moreover have "sent s4 = sent s @ phase1_calls (world s)"
    using r2 r3 r4 by (simp add: phase1_calls_def)
  ultimately show ?thesis by blast
qed

lemma fixer_on_server:
  assumes "wf_server (world s)"
  shows "\<exists>s'. fix_zero_trust_main access_api repr s = (Inr (), s')
           \<and> world s' = purge (provisioned (world s))
           \<and> sent s' = sent s @ phase1_calls (world s) @
               build_request ''GET'' (BASE_URL @ ''?per_page=100'') JNull #
               concat (map cleanup_calls (provisioned (world s)))"
proof -
  from phase1_on_server [OF assms, of repr]
  obtain s1 where p1: "fix_zero_trust_phase1 access_api repr s = (Inr (), s1)"
    and w1: "world s1 = provisioned (world s)"
    and r1: "sent s1 = sent s @ phase1_calls (world s)"
    by blast
  have "wf_server (world s1)"
    using w1 assms by (simp add: wf_provisioned)
  from phase2_on_server [OF this, of repr]
  obtain s2 where p2: "fix_zero_trust_phase2 access_api repr s1 = (Inr (), s2)"
    and w2: "world s2 = purge (world s1)"
    and r2: "sent s2 = sent s1 @ build_request ''GET'' (BASE_URL @ ''?per_page=100'') JNull #
                 concat (map cleanup_calls (world s1))"
    by blast
  from p1 p2 have "fix_zero_trust_main access_api repr s =
      (Inr (), s2\<lparr>stdout := stdout s2 @ [''\<newline>--- Done! ---'']\<rparr>)"
    by (simp add: fix_zero_trust_main_def and_then_Inr print_def)
  with w1 w2 r1 r2 show ?thesis by simp
qed

lemma sends_only_ret: "sends_only M (ret x)"
  by (simp add: sends_only_def ret_def)

lemma sends_only_lift: "sends_only M (lift r)"
  by (simp add: sends_only_def lift_def)

lemma sends_only_print: "sends_only M (print line)"
  by (simp add: sends_only_def print_def)

lemma sends_only_request: "m \<in> M \<Longrightarrow> sends_only M (request urlopen m u d)"
  unfolding sends_only_def
proof
  fix s assume "m \<in> M"
  then have "sent (snd (request urlopen m u d s)) = sent s @ [build_request m u d] \<and>
      (\<forall>r\<in>set [build_request m u d]. rq_method r \<in> M)"
    by (simp add: request_sent build_request_def)
  then show "\<exists>rs. sent (snd (request urlopen m u d s)) = sent s @ rs \<and>
      (\<forall>r\<in>set rs. rq_method r \<in> M)"
    by blast
qed

lemma sends_only_and_then:
  assumes "sends_only M m" and "\<And>x. sends_only M (f x)"
  shows "sends_only M (and_then m f)"
  unfolding sends_only_def
proof
  fix s
  obtain r s1 where ms: "m s = (r, s1)" by (cases "m s")
  from assms(1) ms obtain rs1 where rs1: "sent s1 = sent s @ rs1" "\<forall>r\<in>set rs1. rq_method r \<in> M"
    unfolding sends_only_def by (metis snd_conv)
  show "\<exists>rs. sent (snd (and_then m f s)) = sent s @ rs \<and> (\<forall>r\<in>set rs. rq_method r \<in> M)"
  proof (cases r)
    case (Inl e)
    with ms rs1 show ?thesis by (auto simp: and_then_def)
  next
    case (Inr x)
    from assms(2) [of x] obtain rs2 where
      "sent (snd (f x s1)) = sent s1 @ rs2" "\<forall>r\<in>set rs2. rq_method r \<in> M"
      unfolding sends_only_def by blast
    with ms rs1 Inr have "sent (snd (and_then m f s)) = sent s @ (rs1 @ rs2) \<and>
        (\<forall>r\<in>set (rs1 @ rs2). rq_method r \<in> M)"
      by (auto simp: and_then_def)
    then show ?thesis by blast
  qed
qed

lemma sends_only_request_result:
  "m \<in> M \<Longrightarrow> sends_only M (request_result urlopen m u d)"
  by (simp add: request_result_def sends_only_and_then sends_only_request sends_only_lift)

lemmas sends_only_intros =
  sends_only_and_then sends_only_ret sends_only_lift sends_only_print sends_only_request
  sends_only_request_result

lemma sends_only_if:
  "sends_only M a \<Longrightarrow> sends_only M b \<Longrightarrow> sends_only M (if c then a else b)"
  by simp

lemma sends_only_ensure_studio_app:
  "''POST'' \<in> M \<Longrightarrow> sends_only M (ensure_studio_app urlopen repr found)"
  unfolding ensure_studio_app_def
  by (intro sends_only_if sends_only_intros) simp_all

lemma sends_only_ensure_policy:
  "''POST'' \<in> M \<Longrightarrow> sends_only M (ensure_policy urlopen repr app_id policies name payload)"
  unfolding ensure_policy_def
  by (intro sends_only_if sends_only_intros) simp_all

lemma sends_only_phase1:
  "''GET'' \<in> M \<Longrightarrow> ''POST'' \<in> M \<Longrightarrow> sends_only M (fix_zero_trust_phase1 urlopen repr)"
  unfolding fix_zero_trust_phase1_def
  by (intro sends_only_intros sends_only_ensure_studio_app sends_only_ensure_policy) simp_all

lemma sends_only_cleanup_policy:
  "''DELETE'' \<in> M \<Longrightarrow> sends_only M (cleanup_policy urlopen repr app policy)"
  unfolding cleanup_policy_def
  by (intro sends_only_if sends_only_intros) simp_all

lemma sends_only_cleanup_policies:
  "''DELETE'' \<in> M \<Longrightarrow> sends_only M (cleanup_policies urlopen repr app ps)"
  by (induction ps) (simp_all add: sends_only_intros sends_only_cleanup_policy)

lemma sends_only_cleanup_app:
  "''GET'' \<in> M \<Longrightarrow> ''DELETE'' \<in> M \<Longrightarrow> sends_only M (cleanup_app urlopen repr app)"
  unfolding cleanup_app_def
  by (intro sends_only_intros sends_only_cleanup_policies) simp_all

lemma sends_only_cleanup_apps:
  "''GET'' \<in> M \<Longrightarrow> ''DELETE'' \<in> M \<Longrightarrow> sends_only M (cleanup_apps urlopen repr as)"
  by (induction as) (simp_all add: sends_only_intros sends_only_cleanup_app)

lemma sends_only_phase2:
  "''GET'' \<in> M \<Longrightarrow> ''DELETE'' \<in> M \<Longrightarrow> sends_only M (fix_zero_trust_phase2 urlopen repr)"
  unfolding fix_zero_trust_phase2_def
  by (intro sends_only_intros sends_only_cleanup_apps) simp_all

lemma sends_only_fixer:
  "sends_only {''GET'', ''POST'', ''DELETE''} (fix_zero_trust_main urlopen repr)"
  unfolding fix_zero_trust_main_def
  by (intro sends_only_intros sends_only_phase1 sends_only_phase2) simp_all

lemma fixer_never_puts:
  "calls_of ''PUT'' (sent (snd (fix_zero_trust_main urlopen repr s))) = calls_of ''PUT'' (sent s)"
proof -
  from sends_only_fixer [of urlopen repr]
  obtain rs where "sent (snd (fix_zero_trust_main urlopen repr s)) = sent s @ rs"
    and "\<forall>r\<in>set rs. rq_method r \<in> {''GET'', ''POST'', ''DELETE''}"
    unfolding sends_only_def by blast
  moreover from this(2) have "filter (\<lambda>r. rq_method r = ''PUT'') rs = []"
    by (auto simp: filter_empty_conv)
  ultimately show ?thesis by (simp add: calls_of_def)
qed

lemma first_match_truthy:
  "first_match k v xs = Inr r \<Longrightarrow> truthy r = list_ex (\<lambda>a. subscript a k = Inr v) xs"
proof (induction xs)
  case Nil
  then show ?case by auto
next
  case (Cons a as)
  show ?case
  proof (cases "subscript a k")
    case (Inl e)
    with Cons.prems show ?thesis by simp
  next
    case (Inr d)
    show ?thesis
    proof (cases "d = v")
      case True
      with Inr Cons.prems have "r = a" by simp
      with Inr True subscript_truthy [of a k d] show ?thesis by simp
    next
      case False
      with Inr Cons show ?thesis by simp
    qed
  qed
qed

lemma any_match_list_result:
  "any_match_list k v xs = Inr b \<Longrightarrow> b = list_ex (\<lambda>a. subscript a k = Inr v) xs"
proof (induction xs)
  case Nil
  then show ?case by auto
next
  case (Cons a as)
  then show ?case by (cases "subscript a k") (auto split: if_splits)
qed

lemma next_match_listed: "next_match k v x = Inr r \<Longrightarrow> truthy r = listed k v x"
  by (cases "py_iter x") (simp_all add: next_match_def listed_def first_match_truthy)

lemma any_match_listed: "any_match k v x = Inr b \<Longrightarrow> b = listed k v x"
  by (cases "py_iter x") (simp_all add: any_match_def listed_def any_match_list_result)

lemma ensure_studio_app_sent:
  "sent (snd (ensure_studio_app urlopen repr found s)) =
     sent s @ (if truthy found then []
               else [build_request ''POST'' BASE_URL studio_app_payload])"
proof (cases "truthy found")
  case True
  then show ?thesis
    by (cases "subscript found ''id''") (simp_all add: ensure_studio_app_def ret_def)
next
  case False
  let ?s1 = "s\<lparr>stdout := stdout s @ [''Creating Supabase Studio app...'']\<rparr>"
  obtain r s2 where req: "request urlopen ''POST'' BASE_URL studio_app_payload ?s1 = (r, s2)"
    by (cases "request urlopen ''POST'' BASE_URL studio_app_payload ?s1")
  with request_sent [of urlopen "''POST''" BASE_URL studio_app_payload ?s1]
  have s2: "sent s2 = sent s @ [build_request ''POST'' BASE_URL studio_app_payload]"
    by simp
  have "sent (snd (ensure_studio_app urlopen repr found s)) = sent s2"
  proof (cases r)
    case (Inl e)
    with req False show ?thesis
      by (simp add: ensure_studio_app_def request_result_def and_then_assoc and_then_Inl)
  next
    case response: (Inr body)
    show ?thesis
    proof (cases "subscript body ''result''")
      case (Inl e)
      with req response False show ?thesis
        by (simp add: ensure_studio_app_def request_result_def and_then_assoc and_then_Inr)
    next
      case (Inr created)
      with req response False show ?thesis
        by (cases "subscript created ''id''")
          (simp_all add: ensure_studio_app_def request_result_def and_then_assoc and_then_Inr
            ret_def)
    qed
  qed
  with s2 False show ?thesis by simp
qed

lemma ensure_policy_sent:
  assumes "any_match ''name'' (JStr name) policies = Inr present"
  shows "sent (snd (ensure_policy urlopen repr app_id policies name payload s)) =
     sent s @ (if present then []
               else [build_request ''POST'' (policies_url repr app_id) payload])"
proof (cases present)
  case True
  with assms show ?thesis by (simp add: ensure_policy_def ret_def)
next
  case False
  let ?s1 = "s\<lparr>stdout := stdout s @
      [''Adding '' @ apostrophe @ name @ apostrophe @ '' policy...'']\<rparr>"
  obtain r s2 where req:
    "request urlopen ''POST'' (policies_url repr app_id) payload ?s1 = (r, s2)"
    by (cases "request urlopen ''POST'' (policies_url repr app_id) payload ?s1")
  with request_sent [of urlopen "''POST''" "policies_url repr app_id" payload ?s1]
  have s2: "sent s2 = sent s @ [build_request ''POST'' (policies_url repr app_id) payload]"
    by simp
  from req assms False have "sent (snd (ensure_policy urlopen repr app_id policies name payload s)) =
      sent s2"
    by (cases r) (simp_all add: ensure_policy_def and_then_Inl and_then_Inr ret_def)
  with s2 False show ?thesis by simp
qed

lemma with_policy_find:
  assumes "find (\<lambda>a. a_domain a = d) srv = Some b" and "a_id b = a_id a"
    and "set (map p_name (a_policies a)) \<subseteq> set (map p_name (a_policies b))"
    and "p_name (mk (fresh_id srv)) = n"
  shows "\<exists>b'. find (\<lambda>a. a_domain a = d) (with_policy n mk a srv) = Some b'
           \<and> a_id b' = a_id a
           \<and> set (map p_name (a_policies b)) \<subseteq> set (map p_name (a_policies b'))
           \<and> has_policy n b'"
proof (cases "has_policy n a")
  case True
  with assms(1-3) show ?thesis
    by (auto simp: with_policy_def has_policy_def)
next
  case False
  let ?N = "mk (fresh_id srv)"
  let ?h = "\<lambda>b. if a_id b = a_id a then b\<lparr>a_policies := a_policies b @ [?N]\<rparr> else b"
  have "find (\<lambda>a. a_domain a = d) (map ?h srv) =
      map_option ?h (find (\<lambda>a. a_domain a = d) srv)"
    by (rule find_map_same) simp
  with assms(1,2) False
  have "find (\<lambda>a. a_domain a = d) (with_policy n mk a srv) =
      Some (b\<lparr>a_policies := a_policies b @ [?N]\<rparr>)"
    by (simp add: with_policy_def add_policy_def)
  with assms(2,4) show ?thesis
    by (auto simp: has_policy_def)
qed

lemma find_studio_with_studio:
  "find (\<lambda>a. a_domain a = ''studio.raydoug.com'') (with_studio srv) = Some (studio_of srv)"
  by (cases "find (\<lambda>a. a_domain a = ''studio.raydoug.com'') srv")
    (simp_all add: with_studio_def studio_of_def has_studio_find find_append studio_app_def)

lemma provisioned_has:
  "\<exists>b. find (\<lambda>a. a_domain a = ''studio.raydoug.com'') (provisioned srv) = Some b
       \<and> has_policy ''Allow Admins'' b \<and> has_policy ''Allow Service'' b"
proof -
  let ?A = "studio_of srv"
  have "p_name (allow_admins (fresh_id (with_studio srv))) = ''Allow Admins''"
    by simp
  from with_policy_find [where mk = allow_admins and a = ?A and b = ?A,
      OF find_studio_with_studio refl subset_refl this]
  obtain b1 where b1: "find (\<lambda>a. a_domain a = ''studio.raydoug.com'')
        (with_policy ''Allow Admins'' allow_admins ?A (with_studio srv)) = Some b1"
    and id1: "a_id b1 = a_id ?A"
    and sub1: "set (map p_name (a_policies ?A)) \<subseteq> set (map p_name (a_policies b1))"
    and has1: "has_policy ''Allow Admins'' b1"
    by auto
  have "p_name (allow_service (fresh_id
      (with_policy ''Allow Admins'' allow_admins ?A (with_studio srv)))) = ''Allow Service''"
    by simp
  from with_policy_find [where mk = allow_service, OF b1 id1 sub1 this]
  obtain b2 where b2: "find (\<lambda>a. a_domain a = ''studio.raydoug.com'') (provisioned srv) = Some b2"
    and sub2: "set (map p_name (a_policies b1)) \<subseteq> set (map p_name (a_policies b2))"
    and has2: "has_policy ''Allow Service'' b2"
    by (auto simp: provisioned_def)
  from has1 sub2 have "has_policy ''Allow Admins'' b2"
    by (auto simp: has_policy_def)
  with b2 has2 show ?thesis by blast
qed

lemma purge_keeps_settled:
  assumes "find (\<lambda>a. a_domain a = ''studio.raydoug.com'') srv = Some b"
    and "has_policy ''Allow Admins'' b" and "has_policy ''Allow Service'' b"
  shows "has_studio (purge srv) \<and> has_policy ''Allow Admins'' (studio_of (purge srv))
       \<and> has_policy ''Allow Service'' (studio_of (purge srv))"
proof -
  let ?f = "\<lambda>a. a\<lparr>a_policies := filter (\<lambda>p. \<not> named_bypass p) (a_policies a)\<rparr>"
  have "find (\<lambda>a. a_domain a = ''studio.raydoug.com'') (map ?f srv) =
      map_option ?f (find (\<lambda>a. a_domain a = ''studio.raydoug.com'') srv)"
    by (rule find_map_same) simp
  with assms(1) have found: "find (\<lambda>a. a_domain a = ''studio.raydoug.com'') (purge srv) =
      Some (?f b)"
    by (simp add: purge_def)
  then have "has_studio (purge srv)" and "studio_of (purge srv) = ?f b"
    by (simp_all add: has_studio_find studio_of_def)
  moreover from assms(2,3) have "has_policy ''Allow Admins'' (?f b)"
    and "has_policy ''Allow Service'' (?f b)"
    by (auto simp: has_policy_def named_bypass_def bypass_name_def)
  ultimately show ?thesis by simp
qed

lemma calls_of_append [simp]: "calls_of m (xs @ ys) = calls_of m xs @ calls_of m ys"
  by (simp add: calls_of_def)

lemma posts_of_phase1: "calls_of ''POST'' (phase1_calls srv) = phase1_posts srv"
  by (simp add: phase1_calls_def phase1_posts_def calls_of_def build_request_def)

lemma posts_of_cleanup: "calls_of ''POST'' (concat (map cleanup_calls srv)) = []"
  by (induction srv)
    (simp_all add: cleanup_calls_def calls_of_def build_request_def delete_call_def
      filter_empty_conv)

lemma posts_when_settled:
  assumes "has_studio srv" and "has_policy ''Allow Admins'' (studio_of srv)"
    and "has_policy ''Allow Service'' (studio_of srv)"
  shows "phase1_posts srv = []"
  using assms by (simp add: phase1_posts_def)

text \<open>
  C4. For any world: when the lookup by domain returns, the \<^verbatim>\<open>if not studio_app\<close>
  statement sends the POST that creates the application exactly when the listing holds no
  application with the domain; when the lookup by name returns, the statement for an allow
  policy sends the POST that creates it exactly when the listing holds no policy of that
  name; and no run of the fixer sends a PUT. Against the Access API of the specification,
  from a well-formed server state: a run ends normally and its POSTs are one for the
  application if it was absent, then one for each allow policy that was absent; a second
  run, started on the state the first one left, ends normally and sends no POST.
\<close>

theorem fixer_creates_only_when_absent:
  assumes "next_match ''domain'' (JStr ''studio.raydoug.com'') apps = Inr found"
    and "any_match ''name'' (JStr name) policies = Inr present"
    and "wf_server srv"
  shows "sent (snd (ensure_studio_app urlopen repr found s)) =
           sent s @ (if listed ''domain'' (JStr ''studio.raydoug.com'') apps then []
                     else [build_request ''POST'' BASE_URL studio_app_payload])
       \<and> sent (snd (ensure_policy urlopen repr app_id policies name payload s)) =
           sent s @ (if listed ''name'' (JStr name) policies then []
                     else [build_request ''POST'' (policies_url repr app_id) payload])
       \<and> calls_of ''PUT'' (sent (snd (fix_zero_trust_main urlopen repr s))) =
           calls_of ''PUT'' (sent s)
       \<and> fst (fix_zero_trust_main access_api repr (start srv)) = Inr ()
       \<and> calls_of ''POST'' (sent (snd (fix_zero_trust_main access_api repr (start srv)))) =
           phase1_posts srv
       \<and> fst (fix_zero_trust_main access_api repr
              (start (world (snd (fix_zero_trust_main access_api repr (start srv)))))) = Inr ()
       \<and> calls_of ''POST'' (sent (snd (fix_zero_trust_main access_api repr
              (start (world (snd (fix_zero_trust_main access_api repr (start srv)))))))) = []"
proof -
  have a1: "sent (snd (ensure_studio_app urlopen repr found s)) =
           sent s @ (if listed ''domain'' (JStr ''studio.raydoug.com'') apps then []
                     else [build_request ''POST'' BASE_URL studio_app_payload])"
    using ensure_studio_app_sent [of urlopen repr found s] next_match_listed [OF assms(1)]
    by simp
  have a2: "sent (snd (ensure_policy urlopen repr app_id policies name payload s)) =
           sent s @ (if listed ''name'' (JStr name) policies then []
                     else [build_request ''POST'' (policies_url repr app_id) payload])"
    using ensure_policy_sent [OF assms(2), of urlopen repr app_id payload s]
      any_match_listed [OF assms(2)]
    by simp
  let ?srv1 = "purge (provisioned srv)"
  from fixer_on_server [of "start srv" repr] assms(3)
  obtain s1 where run1: "fix_zero_trust_main access_api repr (start srv) = (Inr (), s1)"
    and w1: "world s1 = ?srv1"
    and r1: "sent s1 = phase1_calls srv @
               build_request ''GET'' (BASE_URL @ ''?per_page=100'') JNull #
               concat (map cleanup_calls (provisioned srv))"
    by (auto simp: start_def)
  have posts1: "calls_of ''POST'' (sent s1) = phase1_posts srv"
    unfolding r1
    by (simp add: posts_of_phase1)
      (simp add: calls_of_def build_request_def posts_of_cleanup [unfolded calls_of_def])
  have wf1: "wf_server ?srv1"
    using assms(3) wf_provisioned wf_server_purge_apps [of "provisioned srv"
        "map a_id (provisioned srv)"]
    by (simp add: purge_apps_all)
  from provisioned_has [of srv] purge_keeps_settled
  have settled: "phase1_posts ?srv1 = []"
    by (blast intro: posts_when_settled)
  from fixer_on_server [of "start ?srv1" repr] wf1
  obtain s2 where run2: "fix_zero_trust_main access_api repr (start ?srv1) = (Inr (), s2)"
    and r2: "sent s2 = phase1_calls ?srv1 @
               build_request ''GET'' (BASE_URL @ ''?per_page=100'') JNull #
               concat (map cleanup_calls (provisioned ?srv1))"
    by (auto simp: start_def)
  have posts2: "calls_of ''POST'' (sent s2) = []"
    unfolding r2
    by (simp add: posts_of_phase1 settled)
      (simp add: calls_of_def build_request_def posts_of_cleanup [unfolded calls_of_def])
  from a1 a2 fixer_never_puts [of urlopen repr s] run1 w1 posts1 run2 posts2
  show ?thesis by simp
qed

theorem fixer_creates_only_when_absent_witness:
  "calls_of ''POST'' (sent (snd (fix_zero_trust_main access_api demo_repr (start demo_server)))) =
     [build_request ''POST'' BASE_URL studio_app_payload,
      build_request ''POST'' (BASE_URL @ ''/xxx/policies'') allow_admins_policy,
      build_request ''POST'' (BASE_URL @ ''/xxx/policies'') allow_service_policy]
   \<and> calls_of ''POST'' (sent (snd (fix_zero_trust_main access_api demo_repr
        (start (world (snd (fix_zero_trust_main access_api demo_repr (start demo_server)))))))) =
     []"
proof -
  have wf: "wf_server demo_server"
    by (simp add: wf_server_def demo_server_def blog_app_def api_app_def)
  have found: "next_match ''domain'' (JStr ''studio.raydoug.com'')
      (JArr (map app_json demo_server)) = Inr JNull"
    by (simp add: next_match_def first_match_apps demo_server_def blog_app_def api_app_def)
  have present: "any_match ''name'' (JStr ''Allow Admins'') (JArr []) = Inr False"
    by (simp add: any_match_def)
  have fresh: "fresh_id demo_server = ''xxx''"
    by (simp add: fresh_id_def used_ids_def demo_server_def blog_app_def api_app_def
        numeral_3_eq_3)
  have posts: "phase1_posts demo_server =
     [build_request ''POST'' BASE_URL studio_app_payload,
      build_request ''POST'' (BASE_URL @ ''/xxx/policies'') allow_admins_policy,
      build_request ''POST'' (BASE_URL @ ''/xxx/policies'') allow_service_policy]"
  proof -
    have "\<not> has_studio demo_server"
      by (simp add: has_studio_def demo_server_def blog_app_def api_app_def)
    moreover from this have "studio_of demo_server = studio_app ''xxx''"
      by (simp add: has_studio_find studio_of_def fresh)
    ultimately show ?thesis
      by (simp add: phase1_posts_def has_policy_def studio_app_def app_policies_path_def)
  qed
  from fixer_creates_only_when_absent [OF found present wf, of forbidden demo_repr "start ()"
      "JStr ''xxx''" allow_admins_policy]
  show ?thesis by (simp add: posts)
qed

end
